theory Spec2Isabelle
  imports Main "HOL-Library.Multiset"
begin

text \<open>
  A model of the two core components of the SQL Server diagnostic tool and the properties
  claimed of them: \<open>ExecutionEngine\<close> runs a batch of query records one after the other
  against a connection, with retries, an optional continue-on-error mode and progress
  reports; \<open>QueryParser\<close> resolves a server version to a query pack, cuts the pack text
  into records, classifies them and groups them into sections. The definitions follow the
  JavaScript sources function by function; what a function does to the outside (executor
  calls, timer, progress observer) is threaded through as a world state and recorded in a
  trace of events.
\<close>

section \<open>JavaScript strings\<close>

text \<open>
  A JavaScript string is modelled as a \<open>string\<close>: a list of characters with codes below
  256, one per UTF-16 code unit. The primitives below are the string methods the sources
  call, on that range of characters.
\<close>

definition isLineTerminator :: "char \<Rightarrow> bool" where
  "isLineTerminator c = (c = CHR 0x0A \<or> c = CHR 0x0D)"

text \<open>White space as \<open>trim()\<close> and the regular expression class \<open>\s\<close> see it.\<close>

definition isWhiteSpace :: "char \<Rightarrow> bool" where
  "isWhiteSpace c =
     (c = CHR 0x09 \<or> c = CHR 0x0A \<or> c = CHR 0x0B \<or> c = CHR 0x0C \<or> c = CHR 0x0D
      \<or> c = CHR 0x20 \<or> c = CHR 0xA0)"

definition isDigit :: "char \<Rightarrow> bool" where
  "isDigit c = (let n = (of_char c :: nat) in 48 \<le> n \<and> n \<le> 57)"

definition trim :: "string \<Rightarrow> string" where
  "trim s = rev (dropWhile isWhiteSpace (rev (dropWhile isWhiteSpace s)))"

definition toLower :: "char \<Rightarrow> char" where
  "toLower c =
     (let n = (of_char c :: nat)
      in if (65 \<le> n \<and> n \<le> 90) \<or> (192 \<le> n \<and> n \<le> 222 \<and> n \<noteq> 215)
         then char_of (n + 32) else c)"

definition toLowerCase :: "string \<Rightarrow> string" where
  "toLowerCase s = map toLower s"

text \<open>
  \<open>s.split('\n')\<close> and \<open>lines.join('\n')\<close>. \<open>cons_first c\<close> puts a character in front
  of the first piece of a split.
\<close>

fun cons_first :: "char \<Rightarrow> string list \<Rightarrow> string list" where
  "cons_first c [] = [[c]]"
| "cons_first c (b # bs) = (c # b) # bs"


fun split_newline :: "string \<Rightarrow> string list" where
  "split_newline [] = [[]]"
| "split_newline (c # cs) =
     (if c = CHR 0x0A then [] # split_newline cs
      else cons_first c (split_newline cs))"

fun join_newline :: "string list \<Rightarrow> string" where
  "join_newline [] = []"
| "join_newline [l] = l"
| "join_newline (l # ls) = l @ CHR 0x0A # join_newline ls"

text \<open>The decimal rendering of a number inside a template literal.\<close>

fun show_nat :: "nat \<Rightarrow> string" where
  "show_nat n =
     (if n < 10 then [char_of (48 + n)]
      else show_nat (n div 10) @ [char_of (48 + n mod 10)])"

text \<open>\<open>s.startsWith(sub)\<close> and \<open>s.includes(sub)\<close> (here \<open>str_includes\<close>) on strings.\<close>

fun startsWith :: "string \<Rightarrow> string \<Rightarrow> bool" where
  "startsWith s [] = True"
| "startsWith [] (c # sub) = False"
| "startsWith (d # s) (c # sub) = (d = c \<and> startsWith s sub)"

fun str_includes :: "string \<Rightarrow> string \<Rightarrow> bool" where
  "str_includes [] sub = (sub = [])"
| "str_includes (c # s) sub = (startsWith (c # s) sub \<or> str_includes s sub)"

section \<open>Execution engine: data model\<close>

text \<open>
  The records of a batch, as \<open>QueryParser\<close> produces them and \<open>ExecutionEngine\<close> reads
  them. \<open>q_queryNumber\<close> is absent (\<open>None\<close>) in the built-in sample set.
\<close>

record query =
  q_id :: string
  q_name :: string
  q_section :: string
  q_description :: string
  q_query :: string
  q_estimatedDuration :: int
  q_queryNumber :: "nat option"

type_synonym row = "(string \<times> string) list"

text \<open>
  What \<open>connectionManager.executeQuery\<close> may hand back: an array of rows, an object
  with a \<open>recordset\<close> property, or anything else (\<open>undefined\<close> included), which the
  engine treats as no rows.
\<close>

datatype qresult = JArray "row list" | JRecordset "row list" | JUndefined

datatype error = Error (message: string)

record outcome =
  o_id :: string
  o_name :: string
  o_section :: string
  o_description :: string
  o_success :: bool
  o_error :: "string option"
  o_executionTime :: int
  o_rowCount :: nat
  o_data :: "row list"
  o_timestamp :: string

record results =
  r_data :: "outcome list"
  r_successful :: nat
  r_failed :: nat
  r_executionTime :: int

text \<open>
  \<open>this.config\<close>: a numeric option that is \<open>undefined\<close> is \<open>None\<close>; an absent
  \<open>continueOnError\<close> is falsy, hence \<open>False\<close>.
\<close>

record config =
  timeout :: "int option"
  maxRetries :: "int option"
  retryDelay :: "int option"
  continueOnError :: bool

text \<open>
  The collaborators of the engine, over a world state \<open>'w\<close>: the connection manager's
  \<open>executeQuery(text, timeout)\<close>, which returns rows or raises, the timer behind the
  retry delay, and the clock (\<open>Date.now()\<close> and its ISO rendering). Logger calls return
  nothing the engine reads and are left out.
\<close>

record 'w env =
  cm_executeQuery :: "string \<Rightarrow> int \<Rightarrow> 'w \<Rightarrow> (error + qresult) \<times> 'w"
  setTimeout :: "int \<Rightarrow> 'w \<Rightarrow> 'w"
  date_now :: "'w \<Rightarrow> int"
  toISOString :: "int \<Rightarrow> string"

text \<open>
  The interactions of a run with its collaborators, in the order they happen: a call of
  the progress observer with \<open>completed\<close>, \<open>total\<close> and \<open>currentQuery\<close>; a call
  of the executor with the query text and the timeout, together with the error it raised
  (\<open>None\<close> when it returned); a retry delay.
\<close>

datatype event =
  Progress nat nat string
| Call string int "error option"
| Sleep int

text \<open>\<open>x || d\<close> on a numeric option: \<open>undefined\<close> and \<open>0\<close> are both falsy.\<close>

definition or_default :: "int option \<Rightarrow> int \<Rightarrow> int" where
  "or_default x d = (case x of None \<Rightarrow> d | Some v \<Rightarrow> if v = 0 then d else v)"

section \<open>Execution engine: operations\<close>

text \<open>The \<open>while (retries <= maxRetries)\<close> loop of \<open>executeQuery\<close>.\<close>

function executeQuery_loop ::
  "'w env \<Rightarrow> int \<Rightarrow> int \<Rightarrow> int \<Rightarrow> query \<Rightarrow> int \<Rightarrow> 'w \<Rightarrow> (error + qresult) \<times> 'w \<times> event list"
where
  "executeQuery_loop env tmo maxR delay q retries w =
     (if retries \<le> maxR then
        (case cm_executeQuery env (q_query q) tmo w of
           (Inr result, w1) \<Rightarrow> (Inr result, w1, [Call (q_query q) tmo None])
         | (Inl err, w1) \<Rightarrow>
             (if retries + 1 > maxR then (Inl err, w1, [Call (q_query q) tmo (Some err)])
              else if delay > 0 then
                (case executeQuery_loop env tmo maxR delay q (retries + 1) (setTimeout env delay w1) of
                   (r, w2, evs) \<Rightarrow> (r, w2, Call (q_query q) tmo (Some err) # Sleep delay # evs))
              else
                (case executeQuery_loop env tmo maxR delay q (retries + 1) w1 of
                   (r, w2, evs) \<Rightarrow> (r, w2, Call (q_query q) tmo (Some err) # evs))))
      else (Inr JUndefined, w, []))"
  by pat_completeness auto
termination
  by (relation "measure (\<lambda>(env, tmo, maxR, delay, q, retries, w). nat (maxR + 1 - retries))") auto

definition executeQuery :: "'w env \<Rightarrow> config \<Rightarrow> query \<Rightarrow> 'w \<Rightarrow> (error + qresult) \<times> 'w \<times> event list" where
  "executeQuery env cfg q w =
     (let tmo = or_default (timeout cfg) 30000;
          maxR = or_default (maxRetries cfg) 3;
          delay = or_default (retryDelay cfg) 1000
      in executeQuery_loop env tmo maxR delay q 0 w)"

text \<open>
  The progress observer: \<open>None\<close> is the default \<open>progressCallback = null\<close>. A
  supplied callback is called with \<open>completed\<close>, \<open>total\<close> and \<open>currentQuery\<close>; it
  is taken to return normally.
\<close>

type_synonym 'w callback = "(nat \<Rightarrow> nat \<Rightarrow> string \<Rightarrow> 'w \<Rightarrow> 'w) option"

definition notify :: "'w callback \<Rightarrow> nat \<Rightarrow> nat \<Rightarrow> string \<Rightarrow> 'w \<Rightarrow> 'w \<times> event list" where
  "notify cb completed ntotal currentQuery w =
     (case cb of
        None \<Rightarrow> (w, [])
      | Some f \<Rightarrow> (f completed ntotal currentQuery w, [Progress completed ntotal currentQuery]))"

fun rowCount_of :: "qresult \<Rightarrow> nat" where
  "rowCount_of (JArray rows) = length rows"
| "rowCount_of (JRecordset rows) = length rows"
| "rowCount_of JUndefined = 0"

fun resultData_of :: "qresult \<Rightarrow> row list" where
  "resultData_of (JArray rows) = rows"
| "resultData_of (JRecordset rows) = rows"
| "resultData_of JUndefined = []"

definition success_outcome :: "query \<Rightarrow> int \<Rightarrow> qresult \<Rightarrow> string \<Rightarrow> outcome" where
  "success_outcome q elapsed queryResult stamp =
     \<lparr>o_id = q_id q, o_name = q_name q, o_section = q_section q,
      o_description = q_description q, o_success = True, o_error = None,
      o_executionTime = elapsed, o_rowCount = rowCount_of queryResult,
      o_data = resultData_of queryResult, o_timestamp = stamp\<rparr>"

definition failure_outcome :: "query \<Rightarrow> error \<Rightarrow> string \<Rightarrow> outcome" where
  "failure_outcome q err stamp =
     \<lparr>o_id = q_id q, o_name = q_name q, o_section = q_section q,
      o_description = q_description q, o_success = False, o_error = Some (message err),
      o_executionTime = 0, o_rowCount = 0, o_data = [], o_timestamp = stamp\<rparr>"

text \<open>
  The \<open>for\<close> loop of \<open>executeQueries\<close>, on the records still to run; \<open>i\<close> is the loop
  index and \<open>ntotal\<close> is \<open>queries.length\<close>. The first component of the result is the
  error the loop threw, if it did; the second is the local \<open>results\<close> object as it
  stood when the loop ended or threw.
\<close>

fun executeQueries_loop ::
  "'w env \<Rightarrow> config \<Rightarrow> 'w callback \<Rightarrow> nat \<Rightarrow> nat \<Rightarrow> query list \<Rightarrow> results \<Rightarrow> 'w
     \<Rightarrow> error option \<times> results \<times> 'w \<times> event list"
where
  "executeQueries_loop env cfg cb ntotal i [] res w = (None, res, w, [])"
| "executeQueries_loop env cfg cb ntotal i (q # qs) res w =
     (case notify cb i ntotal (q_name q) w of (w0, ev0) \<Rightarrow>
      let queryStartTime = date_now env w0 in
      (case executeQuery env cfg q w0 of
         (Inr queryResult, w1, evs) \<Rightarrow>
           let queryEndTime = date_now env w1;
               res1 = res\<lparr>r_data := r_data res @
                        [success_outcome q (queryEndTime - queryStartTime) queryResult
                           (toISOString env (date_now env w1))],
                      r_successful := r_successful res + 1\<rparr>
           in (case executeQueries_loop env cfg cb ntotal (i + 1) qs res1 w1 of
                 (thrown, res2, w2, evs2) \<Rightarrow> (thrown, res2, w2, ev0 @ evs @ evs2))
       | (Inl err, w1, evs) \<Rightarrow>
           let res1 = res\<lparr>r_data := r_data res @
                        [failure_outcome q err (toISOString env (date_now env w1))],
                      r_failed := r_failed res + 1\<rparr>
           in if \<not> continueOnError cfg then (Some err, res1, w1, ev0 @ evs)
              else (case executeQueries_loop env cfg cb ntotal (i + 1) qs res1 w1 of
                      (thrown, res2, w2, evs2) \<Rightarrow> (thrown, res2, w2, ev0 @ evs @ evs2))))"

definition results0 :: results where
  "results0 = \<lparr>r_data = [], r_successful = 0, r_failed = 0, r_executionTime = 0\<rparr>"

definition executeQueries ::
  "'w env \<Rightarrow> config \<Rightarrow> query list \<Rightarrow> 'w callback \<Rightarrow> 'w \<Rightarrow> (error + results) \<times> 'w \<times> event list"
where
  "executeQueries env cfg queries cb w =
     (let startTime = date_now env w
      in case executeQueries_loop env cfg cb (length queries) 0 queries results0 w of
           (Some err, res, w1, evs) \<Rightarrow> (Inl err, w1, evs)
         | (None, res, w1, evs) \<Rightarrow>
             (case notify cb (length queries) (length queries) ''Complete'' w1 of
                (w2, ev) \<Rightarrow>
                  (Inr (res\<lparr>r_executionTime := date_now env w2 - startTime\<rparr>), w2, evs @ ev)))"

text \<open>Reading a trace.\<close>

fun is_Call :: "event \<Rightarrow> bool" where
  "is_Call (Call _ _ _) = True"
| "is_Call _ = False"

fun is_Sleep :: "event \<Rightarrow> bool" where
  "is_Sleep (Sleep _) = True"
| "is_Sleep _ = False"

fun is_Progress :: "event \<Rightarrow> bool" where
  "is_Progress (Progress _ _ _) = True"
| "is_Progress _ = False"



text \<open>
  A concrete setting for evaluating the engine: the world is the number of executor calls
  made so far, which also drives the clock; the executor raises on the text
  \<open>SELECT 1/0\<close> and returns one row otherwise.
\<close>

definition test_env :: "nat env" where
  "test_env =
     \<lparr>cm_executeQuery = (\<lambda>text tmo w.
        (if text = ''SELECT 1/0'' then Inl (Error ''Divide by zero error encountered.'')
         else Inr (JArray [[(''n'', ''1'')]]), w + 1)),
      setTimeout = (\<lambda>delay w. w),
      date_now = (\<lambda>w. int w),
      toISOString = (\<lambda>t. ''1970-01-01T00:00:00.000Z'')\<rparr>"

definition test_query :: "string \<Rightarrow> string \<Rightarrow> query" where
  "test_query nm text =
     \<lparr>q_id = nm, q_name = nm, q_section = ''General'', q_description = nm,
      q_query = text, q_estimatedDuration = 3000, q_queryNumber = None\<rparr>"

definition test_config :: "int \<Rightarrow> bool \<Rightarrow> config" where
  "test_config retries continue =
     \<lparr>timeout = Some 5000, maxRetries = Some retries, retryDelay = Some 100,
      continueOnError = continue\<rparr>"

definition test_batch :: "query list" where
  "test_batch =
     [test_query ''Version Info'' ''SELECT @@VERSION'',
      test_query ''Wait Statistics'' ''SELECT 1/0'',
      test_query ''Server Properties'' ''SELECT 1'']"

definition test_observer :: "nat callback" where
  "test_observer = Some (\<lambda>completed ntotal currentQuery w. w)"

section \<open>Query parser: segmentation\<close>

text \<open>
  \<open>sqlContent.split(/^------$/gm)\<close>. With the \<open>m\<close> flag, \<open>^\<close> holds at the start of
  the input and after a line terminator, \<open>$\<close> at the end of the input and before a line
  terminator. \<open>delimiter_at prev s\<close> says that the expression matches at the position
  whose preceding character is \<open>prev\<close> (\<open>None\<close> at the start of the input) and whose
  remaining input is \<open>s\<close>. The split cuts the six dashes out and keeps everything else, the
  line terminators around them included.
\<close>

definition delimiter_at :: "char option \<Rightarrow> string \<Rightarrow> bool" where
  "delimiter_at prev s =
     ((case prev of None \<Rightarrow> True | Some c \<Rightarrow> isLineTerminator c)
      \<and> take 6 s = ''------''
      \<and> (case drop 6 s of [] \<Rightarrow> True | c # cs \<Rightarrow> isLineTerminator c))"

fun split_blocks :: "char option \<Rightarrow> string \<Rightarrow> string list" where
  "split_blocks prev [] = [[]]"
| "split_blocks prev (c # cs) =
     (if delimiter_at prev (c # cs)
      then [] # split_blocks (Some CHR ''-'') (drop 5 cs) \<comment> \<open>the six dashes are \<open>c\<close> and five of \<open>cs\<close>\<close>
      else cons_first c (split_blocks (Some c) cs))"

definition split_delimiter :: "string \<Rightarrow> string list" where
  "split_delimiter sqlContent = split_blocks None sqlContent"

section \<open>Query parser: classification\<close>

text \<open>\<open>categorizeQuery(description, block)\<close>: the cascade of \<open>includes\<close> tests.\<close>

definition categorizeQuery :: "string \<Rightarrow> string \<Rightarrow> string" where
  "categorizeQuery description block =
     (let desc = toLowerCase description;
          content = toLowerCase block
      in if str_includes desc ''version'' \<or> str_includes desc ''server properties''
            \<or> str_includes desc ''configuration''
         then ''Instance Information''
         else if str_includes desc ''memory'' \<or> str_includes desc ''hardware''
            \<or> str_includes desc ''cpu'' \<or> str_includes desc ''numa''
         then ''Hardware & OS''
         else if str_includes desc ''backup'' \<or> str_includes desc ''maintenance''
            \<or> str_includes desc ''statistics'' \<or> str_includes desc ''fragmentation''
         then ''Maintenance''
         else if str_includes desc ''wait'' \<or> str_includes desc ''performance''
            \<or> str_includes desc ''execution'' \<or> str_includes desc ''expensive''
         then ''Performance''
         else if str_includes desc ''database'' \<or> str_includes desc ''file''
            \<or> str_includes desc ''table'' \<or> str_includes desc ''index''
         then ''Database Objects''
         else if str_includes desc ''security'' \<or> str_includes desc ''login''
            \<or> str_includes desc ''permission''
         then ''Security''
         else if str_includes desc ''alwayson'' \<or> str_includes desc ''cluster''
            \<or> str_includes desc ''availability''
         then ''High Availability''
         else if str_includes desc ''job'' \<or> str_includes desc ''agent''
            \<or> str_includes desc ''alert''
         then ''SQL Server Agent''
         else if str_includes content ''sys.dm_os_wait_stats''
            \<or> str_includes content ''sys.dm_exec_query_stats''
         then ''Performance''
         else if str_includes content ''sys.databases''
            \<or> str_includes content ''sys.master_files''
         then ''Database Objects''
         else if str_includes content ''msdb.dbo.backupset'' \<or> str_includes content ''dbcc''
         then ''Maintenance''
         else ''General'')"

text \<open>
  The classifier as an explicit pair of ordered rule tables, each rule a keyword set and
  a label, evaluated first match first: the reading of \<open>classifySection\<close> to compare
  \<open>categorizeQuery\<close> with.
\<close>

definition description_rules :: "(string list \<times> string) list" where
  "description_rules =
     [([''version'', ''server properties'', ''configuration''], ''Instance Information''),
      ([''memory'', ''hardware'', ''cpu'', ''numa''], ''Hardware & OS''),
      ([''backup'', ''maintenance'', ''statistics'', ''fragmentation''], ''Maintenance''),
      ([''wait'', ''performance'', ''execution'', ''expensive''], ''Performance''),
      ([''database'', ''file'', ''table'', ''index''], ''Database Objects''),
      ([''security'', ''login'', ''permission''], ''Security''),
      ([''alwayson'', ''cluster'', ''availability''], ''High Availability''),
      ([''job'', ''agent'', ''alert''], ''SQL Server Agent'')]"

definition content_rules :: "(string list \<times> string) list" where
  "content_rules =
     [([''sys.dm_os_wait_stats'', ''sys.dm_exec_query_stats''], ''Performance''),
      ([''sys.databases'', ''sys.master_files''], ''Database Objects''),
      ([''msdb.dbo.backupset'', ''dbcc''], ''Maintenance'')]"

fun first_match :: "(string list \<times> string) list \<Rightarrow> string \<Rightarrow> string option" where
  "first_match [] text = None"
| "first_match ((keywords, label) # rules) text =
     (if list_ex (str_includes text) keywords then Some label else first_match rules text)"

definition classifySection :: "string \<Rightarrow> string \<Rightarrow> string" where
  "classifySection description body =
     (case first_match description_rules (toLowerCase description) of
        Some label \<Rightarrow> label
      | None \<Rightarrow>
          (case first_match content_rules (toLowerCase body) of
             Some label \<Rightarrow> label
           | None \<Rightarrow> ''General''))"

definition estimateQueryDuration :: "string \<Rightarrow> int" where
  "estimateQueryDuration query =
     (let queryLower = toLowerCase query
      in if str_includes queryLower ''@@version'' \<or> str_includes queryLower ''serverproperty''
            \<or> str_includes queryLower ''sys.configurations''
         then 500
         else if str_includes queryLower ''sys.dm_os_wait_stats''
            \<or> str_includes queryLower ''sys.dm_exec_query_stats''
            \<or> str_includes queryLower ''sys.dm_db_index_usage_stats''
         then 2000
         else if str_includes queryLower ''sys.dm_db_index_physical_stats''
            \<or> str_includes queryLower ''sys.dm_os_buffer_descriptors''
         then 5000
         else if str_includes queryLower ''cross apply''
            \<and> str_includes queryLower ''sys.dm_exec_sql_text''
         then 10000
         else 3000)"

section \<open>Query parser: records\<close>

text \<open>
  The pattern \<open>/--.*?\(Query\s+(\d+)\)\s*\(([^)]+)\)/i\<close> of \<open>extractQueryInfo\<close>.
  \<open>match_tail s\<close> matches the part from \<open>\(Query\<close> on at the start of \<open>s\<close> and
  returns the second group: each greedy repetition is followed by a character outside its
  class, so it takes all it can and backtracking never finds another match.
  \<open>match_lazy\<close> is \<open>.*?\<close> followed by that part: the tail is tried first, and one more
  character other than a line terminator is consumed when it fails. \<open>match_queryPattern\<close>
  tries the start positions from left to right and returns the second group of the first
  match.
\<close>

definition match_tail :: "string \<Rightarrow> string option" where
  "match_tail s =
     (if toLowerCase (take 6 s) = ''(query'' then
        (let s1 = drop 6 s; s2 = dropWhile isWhiteSpace s1 in
         if length s2 = length s1 then None
         else
           (let s3 = dropWhile isDigit s2 in
            if length s3 = length s2 then None
            else
              (case s3 of
                 [] \<Rightarrow> None
               | c # s4 \<Rightarrow>
                   if c \<noteq> CHR '')'' then None
                   else
                     (case dropWhile isWhiteSpace s4 of
                        [] \<Rightarrow> None
                      | d # s6 \<Rightarrow>
                          if d \<noteq> CHR ''('' then None
                          else
                            (let cap = takeWhile (\<lambda>x. x \<noteq> CHR '')'') s6;
                                 s7 = dropWhile (\<lambda>x. x \<noteq> CHR '')'') s6
                             in if cap = [] \<or> s7 = [] then None else Some cap)))))
      else None)"

fun match_lazy :: "string \<Rightarrow> string option" where
  "match_lazy [] = match_tail []"
| "match_lazy (c # cs) =
     (case match_tail (c # cs) of
        Some cap \<Rightarrow> Some cap
      | None \<Rightarrow> if isLineTerminator c then None else match_lazy cs)"

fun match_queryPattern :: "string \<Rightarrow> string option" where
  "match_queryPattern [] = None"
| "match_queryPattern (c # cs) =
     (if startsWith (c # cs) ''--'' then
        (case match_lazy (drop 1 cs) of \<comment> \<open>after the two dashes\<close>
           Some cap \<Rightarrow> Some cap
         | None \<Rightarrow> match_queryPattern cs)
      else match_queryPattern cs)"

text \<open>The line loop of \<open>extractQueryInfo\<close> with its \<open>inQuery\<close> flag.\<close>

fun collect_sqlLines :: "bool \<Rightarrow> string list \<Rightarrow> string list" where
  "collect_sqlLines inQuery [] = []"
| "collect_sqlLines inQuery (line # lines) =
     (let trimmedLine = trim line in
      if \<not> inQuery \<and> (startsWith trimmedLine ''--'' \<or> trimmedLine = [])
      then collect_sqlLines inQuery lines
      else
        (let inQuery1 = (if \<not> inQuery \<and> length trimmedLine > 0 then True else inQuery)
         in if inQuery1 then line # collect_sqlLines inQuery1 lines
            else collect_sqlLines inQuery1 lines))"

record query_info =
  qi_name :: string
  qi_section :: string
  qi_description :: string
  qi_query :: string

text \<open>\<open>extractQueryInfo(block, queryNumber)\<close>; \<open>None\<close> is the \<open>null\<close> it returns.\<close>

definition extractQueryInfo :: "string \<Rightarrow> nat \<Rightarrow> query_info option" where
  "extractQueryInfo block queryNumber =
     (let (name, section, description) =
            (case match_queryPattern block of
               None \<Rightarrow> (''Query '' @ show_nat queryNumber, ''General'', ''SQL Server diagnostic query'')
             | Some group2 \<Rightarrow>
                 (let description = trim group2
                  in (description, categorizeQuery description block, description)));
          lines = split_newline block;
          sqlLines = collect_sqlLines False lines;
          query = trim (join_newline sqlLines)
      in if query = [] \<or> length query < 10 then None
         else Some \<lparr>qi_name = name, qi_section = section, qi_description = description,
                     qi_query = query\<rparr>)"

text \<open>
  The block loop of \<open>parseGlenBerryQueries\<close>, on the blocks it visits, with the counter
  \<open>queryNumber\<close>.
\<close>

fun parse_blocks :: "nat \<Rightarrow> string list \<Rightarrow> query list" where
  "parse_blocks queryNumber [] = []"
| "parse_blocks queryNumber (b # bs) =
     (let block = trim b in
      if block = [] \<or> length block < 50 then parse_blocks queryNumber bs
      else
        (case extractQueryInfo block queryNumber of
           None \<Rightarrow> parse_blocks queryNumber bs
         | Some queryInfo \<Rightarrow>
             if qi_query queryInfo = [] then parse_blocks queryNumber bs
             else
               \<lparr>q_id = ''glen-berry-'' @ show_nat queryNumber,
                q_name = qi_name queryInfo,
                q_section = qi_section queryInfo,
                q_description = qi_description queryInfo,
                q_query = qi_query queryInfo,
                q_estimatedDuration = estimateQueryDuration (qi_query queryInfo),
                q_queryNumber = Some queryNumber\<rparr>
               # parse_blocks (queryNumber + 1) bs))"

text \<open>
  \<open>parseGlenBerryQueries(sqlContent, version)\<close>: the loop runs over
  \<open>i < queryBlocks.length - 1\<close>, that is over all blocks but the last.
\<close>

definition parseGlenBerryQueries :: "string \<Rightarrow> int \<Rightarrow> query list" where
  "parseGlenBerryQueries sqlContent version =
     (let queryBlocks = split_delimiter sqlContent
      in parse_blocks 1 (butlast queryBlocks))"

text \<open>
  A block is accepted when it passes the length filter and \<open>extractQueryInfo\<close> finds a
  statement in it; whether it does never depends on the counter.
\<close>

definition accepted :: "string \<Rightarrow> bool" where
  "accepted b = (50 \<le> length (trim b) \<and> extractQueryInfo (trim b) 0 \<noteq> None)"

text \<open>
  A pack of four blocks, the second of which holds remarks only, and some text after the
  last delimiter line.
\<close>

definition test_pack :: string where
  "test_pack =
     ''-- SQL and OS Version information for current instance  (Query 1) (Version Info)\<newline>''
     @ ''SELECT @@SERVERNAME AS [Server Name], @@VERSION AS [SQL Server and OS Version Info];\<newline>''
     @ ''------\<newline>''
     @ ''\<newline>''
     @ ''-- A block of remarks only: nothing to run follows these lines\<newline>''
     @ ''------\<newline>''
     @ ''\<newline>''
     @ ''-- Get socket, physical core and logical core count  (Query 2) (Core Counts)\<newline>''
     @ ''EXEC sys.xp_readerrorlog 0, 1, N-detected, N-socket;\<newline>''
     @ ''------\<newline>''
     @ ''\<newline>''
     @ ''-- Get selected server properties (Query 3) (Server Properties)\<newline>''
     @ ''SELECT SERVERPROPERTY(-MachineName-) AS [MachineName];\<newline>''
     @ ''------\<newline>''
     @ ''\<newline>''
     @ ''-- Remarks after the last delimiter line, long enough to pass the length filter\<newline>''
     @ ''SELECT 1 AS [not a query];\<newline>''"

text \<open>A pack text up to its last delimiter line, and a text after that line.\<close>

definition test_head :: string where
  "test_head =
     ''-- SQL and OS Version information  (Query 1) (Version Info)\<newline>''
     @ ''SELECT @@VERSION AS [SQL Server and OS Version Info];\<newline>''"

definition test_tail :: string where
  "test_tail =
     ''\<newline>''
     @ ''-- Remarks after the last delimiter line, long enough to pass the length filter\<newline>''
     @ ''SELECT 1 AS [not a query];\<newline>''"

section \<open>Version resolution\<close>

text \<open>
  \<open>this.queryPackFiles\<close>, in the order of the object literal. A numeric literal used as
  a property name is the property whose key is its decimal rendering.
\<close>

definition queryPackFiles :: "(string \<times> string) list" where
  "queryPackFiles =
     [(''2025'', ''sql-server-2025-queries.sql''),
      (''2022'', ''sql-server-2022-queries.sql''),
      (''2019'', ''sql-server-2019-queries.sql''),
      (''2017'', ''sql-server-2017-queries.sql''),
      (''2016'', ''sql-server-2016-queries.sql''),
      (''2016SP2'', ''sql-server-2016SP2-queries.sql''),
      (''2014'', ''sql-server-2014-queries.sql''),
      (''2012'', ''sql-server-2012-queries.sql''),
      (''2008'', ''sql-server-2008-queries.sql''),
      (''2008R2'', ''sql-server-2008R2-queries.sql''),
      (''2008STD'', ''sql-server-2008STD-queries.sql''),
      (''2005'', ''sql-server-2005-queries.sql'')]"

text \<open>
  \<open>parseInt(x)\<close> with no radix, on the string that \<open>x\<close> is converted to: leading white
  space is skipped, a sign is read, a \<open>0x\<close> prefix selects radix 16, and the longest run
  of digits is the value; \<open>None\<close> is \<open>NaN\<close>, the result when there is no digit. The
  value is the exact integer: the number \<open>parseInt\<close> returns is that integer rounded, and
  rounding does not change how it compares with the small integers it is compared with.
\<close>

definition digit_val :: "char \<Rightarrow> int" where
  "digit_val c =
     (let n = (of_char c :: int)
      in if 48 \<le> n \<and> n \<le> 57 then n - 48
         else if 97 \<le> n \<and> n \<le> 102 then n - 87
         else n - 55)"

definition isHexDigit :: "char \<Rightarrow> bool" where
  "isHexDigit c = (c \<in> set ''0123456789abcdefABCDEF'')"

definition digits_val :: "int \<Rightarrow> string \<Rightarrow> int" where
  "digits_val radix ds = foldl (\<lambda>acc c. acc * radix + digit_val c) 0 ds"

definition parseInt :: "string \<Rightarrow> int option" where
  "parseInt inputString =
     (let s = dropWhile isWhiteSpace inputString;
          negative = startsWith s ''-'';
          s1 = (if startsWith s ''-'' \<or> startsWith s ''+'' then drop 1 s else s);
          hex = (startsWith s1 ''0x'' \<or> startsWith s1 ''0X'');
          s2 = (if hex then drop 2 s1 else s1);
          z = (if hex then takeWhile isHexDigit s2 else takeWhile isDigit s2);
          v = digits_val (if hex then 16 else 10) z
      in if z = [] then None else Some (if negative then - v else v))"

text \<open>
  The decimal rendering of an integer. It is what an integer argument of magnitude below
  \<open>10\<^sup>2\<^sup>1\<close> is converted to, and the property key that a numeric key is looked up
  under. From \<open>10\<^sup>2\<^sup>1\<close> on a number is converted to exponent notation (\<open>1e+21\<close>) and
  \<open>show_int\<close> is not its rendering: it is used for integers below that bound only, and such
  an argument is given to \<open>mapVersionToKey\<close> as the string it is converted to.
\<close>

definition show_int :: "int \<Rightarrow> string" where
  "show_int n = (if n < 0 then CHR ''-'' # show_nat (nat (- n)) else show_nat (nat n))"

text \<open>
  \<open>mapVersionToKey(version)\<close>. The argument reaches the function body only through
  \<open>parseInt(version)\<close>, which converts it to a string first: the model takes that string.
  Every comparison with \<open>NaN\<close> is false, which leads to the last \<open>return\<close>.
\<close>

definition mapVersionToKey :: "string \<Rightarrow> int" where
  "mapVersionToKey version =
     (case parseInt version of
        None \<Rightarrow> 2019
      | Some versionNum \<Rightarrow>
          if versionNum \<ge> 2005 \<and> versionNum \<le> 2025 then versionNum
          else if versionNum \<ge> 17 then 2025
          else if versionNum \<ge> 16 then 2022
          else if versionNum \<ge> 15 then 2019
          else if versionNum \<ge> 14 then 2017
          else if versionNum \<ge> 13 then 2016
          else if versionNum \<ge> 12 then 2014
          else if versionNum \<ge> 11 then 2012
          else if versionNum \<ge> 10 then 2008
          else if versionNum \<ge> 9 then 2005
          else 2019)"

text \<open>
  \<open>this.queryPackFiles[versionKey]\<close> for a numeric key, as \<open>loadLocalQueryPack\<close> looks
  the file name up: \<open>None\<close> is \<open>undefined\<close>.
\<close>

definition packFile :: "int \<Rightarrow> string option" where
  "packFile versionKey = map_of queryPackFiles (show_int versionKey)"



text \<open>
  An element of \<open>availableVersions\<close>: a number or a string. \<open>isNaN(key)\<close> is applied to the
  keys of \<open>queryPackFiles\<close> only, which are runs of digits and capital letters: such a key
  converts to a number exactly when it consists of digits.
\<close>

datatype version = VNum int | VStr string









section \<open>Query parser: the loaded records and their sections\<close>

text \<open>\<open>getSampleQueries\<close>: the built-in records used when no pack could be loaded.\<close>

definition getSampleQueries :: "query list" where
  "getSampleQueries =
     [\<lparr>q_id = ''version-info'',
       q_name = ''SQL and OS Version Information'',
       q_section = ''Instance Information'',
       q_description = ''Get SQL Server and OS version information'',
       q_query =
         ''SELECT @@SERVERNAME AS [Server Name], @@VERSION AS [SQL Server and OS Version Info];'',
       q_estimatedDuration = 1000,
       q_queryNumber = None\<rparr>,
      \<lparr>q_id = ''server-properties'',
       q_name = ''Server Properties'',
       q_section = ''Instance Information'',
       q_description = ''Get selected server properties'',
       q_query =
         ''\<newline>''
         @ ''          SELECT SERVERPROPERTY('MachineName') AS [MachineName], \<newline>''
         @ ''          SERVERPROPERTY('ServerName') AS [ServerName],  \<newline>''
         @ ''          SERVERPROPERTY('InstanceName') AS [Instance], \<newline>''
         @ ''          SERVERPROPERTY('IsClustered') AS [IsClustered], \<newline>''
         @ ''          SERVERPROPERTY('Edition') AS [Edition], \<newline>''
         @ ''          SERVERPROPERTY('ProductLevel') AS [ProductLevel],\<newline>''
         @ ''          SERVERPROPERTY('ProductVersion') AS [ProductVersion],\<newline>''
         @ ''          SERVERPROPERTY('Collation') AS [Collation];\<newline>''
         @ ''        '',
       q_estimatedDuration = 1000,
       q_queryNumber = None\<rparr>,
      \<lparr>q_id = ''configuration-values'',
       q_name = ''Configuration Values'',
       q_section = ''Instance Information'',
       q_description = ''Get instance-level configuration values'',
       q_query =
         ''\<newline>''
         @ ''          SELECT name, value, value_in_use, minimum, maximum, [description], is_dynamic, is_advanced\<newline>''
         @ ''          FROM sys.configurations WITH (NOLOCK)\<newline>''
         @ ''          ORDER BY name;\<newline>''
         @ ''        '',
       q_estimatedDuration = 2000,
       q_queryNumber = None\<rparr>,
      \<lparr>q_id = ''hardware-info'',
       q_name = ''Hardware Information'',
       q_section = ''Hardware & OS'',
       q_description = ''Get hardware information from SQL Server'',
       q_query =
         ''\<newline>''
         @ ''          SELECT cpu_count AS [Logical CPU Count], \<newline>''
         @ ''          scheduler_count, \<newline>''
         @ ''          physical_memory_kb/1024 AS [Physical Memory (MB)], \<newline>''
         @ ''          max_workers_count AS [Max Workers Count], \<newline>''
         @ ''          affinity_type_desc AS [Affinity Type], \<newline>''
         @ ''          sqlserver_start_time AS [SQL Server Start Time],\<newline>''
         @ ''          DATEDIFF(hour, sqlserver_start_time, GETDATE()) AS [SQL Server Up Time (hrs)],\<newline>''
         @ ''          virtual_machine_type_desc AS [Virtual Machine Type]\<newline>''
         @ ''          FROM sys.dm_os_sys_info WITH (NOLOCK);\<newline>''
         @ ''        '',
       q_estimatedDuration = 1000,
       q_queryNumber = None\<rparr>,
      \<lparr>q_id = ''memory-usage'',
       q_name = ''Memory Usage'',
       q_section = ''Hardware & OS'',
       q_description = ''Get memory usage information'',
       q_query =
         ''\<newline>''
         @ ''          SELECT total_physical_memory_kb/1024 AS [Physical Memory (MB)], \<newline>''
         @ ''          available_physical_memory_kb/1024 AS [Available Memory (MB)], \<newline>''
         @ ''          total_page_file_kb/1024 AS [Page File Commit Limit (MB)],\<newline>''
         @ ''          available_page_file_kb/1024 AS [Available Page File (MB)], \<newline>''
         @ ''          system_cache_kb/1024 AS [System Cache (MB)],\<newline>''
         @ ''          system_memory_state_desc AS [System Memory State]\<newline>''
         @ ''          FROM sys.dm_os_sys_memory WITH (NOLOCK);\<newline>''
         @ ''        '',
       q_estimatedDuration = 1000,
       q_queryNumber = None\<rparr>,
      \<lparr>q_id = ''database-files'',
       q_name = ''Database Files'',
       q_section = ''Database Files'',
       q_description = ''File names and paths for all databases'',
       q_query =
         ''\<newline>''
         @ ''          SELECT DB_NAME([database_id]) AS [Database Name], \<newline>''
         @ ''          [file_id], [name], physical_name, [type_desc], state_desc,\<newline>''
         @ ''          is_percent_growth, growth, \<newline>''
         @ ''          CONVERT(bigint, growth/128.0) AS [Growth in MB], \<newline>''
         @ ''          CONVERT(bigint, size/128.0) AS [Total Size in MB], max_size\<newline>''
         @ ''          FROM sys.master_files WITH (NOLOCK)\<newline>''
         @ ''          ORDER BY DB_NAME([database_id]), [file_id];\<newline>''
         @ ''        '',
       q_estimatedDuration = 2000,
       q_queryNumber = None\<rparr>,
      \<lparr>q_id = ''wait-stats'',
       q_name = ''Wait Statistics'',
       q_section = ''Performance'',
       q_description = ''Get wait statistics since last restart'',
       q_query =
         ''\<newline>''
         @ ''          SELECT TOP(50) wait_type, \<newline>''
         @ ''          wait_time_ms, \<newline>''
         @ ''          signal_wait_time_ms,\<newline>''
         @ ''          wait_time_ms - signal_wait_time_ms AS resource_wait_time_ms,\<newline>''
         @ ''          waiting_tasks_count,\<newline>''
         @ ''          wait_time_ms / waiting_tasks_count AS avg_wait_time_ms\<newline>''
         @ ''          FROM sys.dm_os_wait_stats WITH (NOLOCK)\<newline>''
         @ ''          WHERE waiting_tasks_count > 0\<newline>''
         @ ''          AND wait_type NOT IN (\<newline>''
         @ ''            'BROKER_EVENTHANDLER', 'BROKER_RECEIVE_WAITFOR', 'BROKER_TASK_STOP',\<newline>''
         @ ''            'BROKER_TO_FLUSH', 'BROKER_TRANSMITTER', 'CHECKPOINT_QUEUE',\<newline>''
         @ ''            'CHKPT', 'CLR_AUTO_EVENT', 'CLR_MANUAL_EVENT', 'CLR_SEMAPHORE',\<newline>''
         @ ''            'DBMIRROR_DBM_EVENT', 'DBMIRROR_EVENTS_QUEUE', 'DBMIRROR_WORKER_QUEUE',\<newline>''
         @ ''            'DBMIRRORING_CMD', 'DIRTY_PAGE_POLL', 'DISPATCHER_QUEUE_SEMAPHORE',\<newline>''
         @ ''            'EXECSYNC', 'FSAGENT', 'FT_IFTS_SCHEDULER_IDLE_WAIT', 'FT_IFTSHC_MUTEX',\<newline>''
         @ ''            'HADR_CLUSAPI_CALL', 'HADR_FILESTREAM_IOMGR_IOCOMPLETION', 'HADR_LOGCAPTURE_WAIT',\<newline>''
         @ ''            'HADR_NOTIFICATION_DEQUEUE', 'HADR_TIMER_TASK', 'HADR_WORK_QUEUE',\<newline>''
         @ ''            'KSOURCE_WAKEUP', 'LAZYWRITER_SLEEP', 'LOGMGR_QUEUE', 'ONDEMAND_TASK_QUEUE',\<newline>''
         @ ''            'PWAIT_ALL_COMPONENTS_INITIALIZED', 'QDS_PERSIST_TASK_MAIN_LOOP_SLEEP',\<newline>''
         @ ''            'QDS_CLEANUP_STALE_QUERIES_TASK_MAIN_LOOP_SLEEP', 'REQUEST_FOR_DEADLOCK_SEARCH',\<newline>''
         @ ''            'RESOURCE_QUEUE', 'SERVER_IDLE_CHECK', 'SLEEP_BPOOL_FLUSH', 'SLEEP_DBSTARTUP',\<newline>''
         @ ''            'SLEEP_DCOMSTARTUP', 'SLEEP_MASTERDBREADY', 'SLEEP_MASTERMDREADY',\<newline>''
         @ ''            'SLEEP_MASTERUPGRADED', 'SLEEP_MSDBSTARTUP', 'SLEEP_SYSTEMTASK', 'SLEEP_TASK',\<newline>''
         @ ''            'SLEEP_TEMPDBSTARTUP', 'SNI_HTTP_ACCEPT', 'SP_SERVER_DIAGNOSTICS_SLEEP',\<newline>''
         @ ''            'SQLTRACE_BUFFER_FLUSH', 'SQLTRACE_INCREMENTAL_FLUSH_SLEEP', 'SQLTRACE_WAIT_ENTRIES',\<newline>''
         @ ''            'WAIT_FOR_RESULTS', 'WAITFOR', 'WAITFOR_TASKSHUTDOWN', 'WAIT_XTP_HOST_WAIT',\<newline>''
         @ ''            'WAIT_XTP_OFFLINE_CKPT_NEW_LOG', 'WAIT_XTP_CKPT_CLOSE', 'XE_DISPATCHER_JOIN',\<newline>''
         @ ''            'XE_DISPATCHER_WAIT', 'XE_TIMER_EVENT'' @ [CHR 0x27, CHR 0x0A]
         @ ''          )\<newline>''
         @ ''          ORDER BY wait_time_ms DESC;\<newline>''
         @ ''        '',
       q_estimatedDuration = 3000,
       q_queryNumber = None\<rparr>,
      \<lparr>q_id = ''backup-history'',
       q_name = ''Backup History'',
       q_section = ''Maintenance'',
       q_description = ''Last backup information by database'',
       q_query =
         ''\<newline>''
         @ ''          SELECT ISNULL(d.[name], bs.[database_name]) AS [Database], \<newline>''
         @ ''          d.recovery_model_desc AS [Recovery Model], \<newline>''
         @ ''          d.log_reuse_wait_desc AS [Log Reuse Wait Desc],\<newline>''
         @ ''          MAX(CASE WHEN [type] = 'D' THEN bs.backup_finish_date ELSE NULL END) AS [Last Full Backup],\<newline>''
         @ ''          MAX(CASE WHEN [type] = 'I' THEN bs.backup_finish_date ELSE NULL END) AS [Last Differential Backup],\<newline>''
         @ ''          MAX(CASE WHEN [type] = 'L' THEN bs.backup_finish_date ELSE NULL END) AS [Last Log Backup]\<newline>''
         @ ''          FROM sys.databases AS d WITH (NOLOCK)\<newline>''
         @ ''          LEFT OUTER JOIN msdb.dbo.backupset AS bs WITH (NOLOCK)\<newline>''
         @ ''          ON bs.[database_name] = d.[name]\<newline>''
         @ ''          AND bs.backup_finish_date > GETDATE()- 30\<newline>''
         @ ''          WHERE d.name <> N'tempdb'' @ [CHR 0x27, CHR 0x0A]
         @ ''          GROUP BY ISNULL(d.[name], bs.[database_name]), d.recovery_model_desc, d.log_reuse_wait_desc, d.[name] \<newline>''
         @ ''          ORDER BY d.recovery_model_desc, d.[name];\<newline>''
         @ ''        '',
       q_estimatedDuration = 2000,
       q_queryNumber = None\<rparr>]"

text \<open>
  The parser object: \<open>this.queries\<close> and \<open>this.sections\<close>. A JavaScript \<open>Map\<close> keeps
  its keys in insertion order: an association list, a new key going to the end.
\<close>

record parser =
  queries :: "query list"
  sections :: "(string \<times> query list) list"

definition map_has :: "('k \<times> 'v) list \<Rightarrow> 'k \<Rightarrow> bool" where
  "map_has m k = (map_of m k \<noteq> None)"

fun map_set :: "('k \<times> 'v) list \<Rightarrow> 'k \<Rightarrow> 'v \<Rightarrow> ('k \<times> 'v) list" where
  "map_set [] k v = [(k, v)]"
| "map_set ((k', v') # m) k v = (if k' = k then (k, v) # m else (k', v') # map_set m k v)"

text \<open>\<open>m.get(k).push(x)\<close>: the array stored under \<open>k\<close> grows in place.\<close>

fun map_push :: "('k \<times> 'v list) list \<Rightarrow> 'k \<Rightarrow> 'v \<Rightarrow> ('k \<times> 'v list) list" where
  "map_push [] k x = []"
| "map_push ((k', xs) # m) k x =
     (if k' = k then (k', xs @ [x]) # m else (k', xs) # map_push m k x)"

definition organize_step :: "(string \<times> query list) list \<Rightarrow> query \<Rightarrow> (string \<times> query list) list" where
  "organize_step m query =
     (let m1 = (if \<not> map_has m (q_section query) then map_set m (q_section query) [] else m)
      in map_push m1 (q_section query) query)"

definition organizeSections :: "parser \<Rightarrow> parser" where
  "organizeSections p = p\<lparr>sections := foldl organize_step [] (queries p)\<rparr>"

text \<open>
  \<open>loadQueries(sqlServerVersion)\<close>. What \<open>loadGlenBerryQueries\<close> returns depends on the
  pack files and the network; it is the argument \<open>loaded\<close> (the empty list when nothing
  could be loaded, since that function catches every error).
\<close>

definition loadQueries :: "query list \<Rightarrow> parser \<Rightarrow> query list \<times> parser" where
  "loadQueries loaded p =
     (let p1 = (if length loaded > 0 then p\<lparr>queries := loaded\<rparr>
                else p\<lparr>queries := getSampleQueries\<rparr>);
          p2 = organizeSections p1
      in (queries p2, p2))"

record section_summary =
  s_name :: string
  s_queryCount :: nat
  s_estimatedDuration :: int

text \<open>\<open>getSections(version)\<close>, with the same argument \<open>loaded\<close> for the load it may start.\<close>

definition getSections :: "query list \<Rightarrow> parser \<Rightarrow> section_summary list \<times> parser" where
  "getSections loaded p =
     (let p1 = (if length (sections p) = 0 then snd (loadQueries loaded p) else p)
      in (map (\<lambda>(name, qs).
                 \<lparr>s_name = name, s_queryCount = length qs,
                  s_estimatedDuration = foldl (\<lambda>sum q. sum + q_estimatedDuration q) 0 qs\<rparr>)
              (sections p1),
          p1))"

text \<open>
  The section labels of a list of records, each once, in the order of first occurrence,
  and the records of one section in their order.
\<close>

fun first_occurrences :: "'a list \<Rightarrow> 'a list" where
  "first_occurrences [] = []"
| "first_occurrences (x # xs) = x # first_occurrences (filter (\<lambda>y. y \<noteq> x) xs)"

definition members :: "string \<Rightarrow> query list \<Rightarrow> query list" where
  "members label qs = filter (\<lambda>q. q_section q = label) qs"

text \<open>The section index that a list of records determines.\<close>

definition grouped :: "query list \<Rightarrow> (string \<times> query list) list" where
  "grouped qs = map (\<lambda>label. (label, members label qs)) (first_occurrences (map q_section qs))"

section \<open>Execution engine: properties\<close>

declare executeQuery_loop.simps [simp del]

lemma loop_exit:
  "\<not> r \<le> m \<Longrightarrow> executeQuery_loop env t m d q r w = (Inr JUndefined, w, [])"
  by (subst executeQuery_loop.simps) simp

lemma loop_ok:
  "r \<le> m \<Longrightarrow> cm_executeQuery env (q_query q) t w = (Inr result, w1) \<Longrightarrow>
   executeQuery_loop env t m d q r w = (Inr result, w1, [Call (q_query q) t None])"
  by (subst executeQuery_loop.simps) simp

lemma loop_last:
  "r \<le> m \<Longrightarrow> cm_executeQuery env (q_query q) t w = (Inl e, w1) \<Longrightarrow> m < r + 1 \<Longrightarrow>
   executeQuery_loop env t m d q r w = (Inl e, w1, [Call (q_query q) t (Some e)])"
  by (subst executeQuery_loop.simps) simp

lemma loop_retry:
  "r \<le> m \<Longrightarrow> cm_executeQuery env (q_query q) t w = (Inl e, w1) \<Longrightarrow> r + 1 \<le> m \<Longrightarrow>
   executeQuery_loop env t m d q r w =
     (case executeQuery_loop env t m d q (r + 1) (if d > 0 then setTimeout env d w1 else w1) of
        (res, w2, evs) \<Rightarrow>
          (res, w2, Call (q_query q) t (Some e) # (if d > 0 then [Sleep d] else []) @ evs))"
  by (subst executeQuery_loop.simps) (simp split: prod.splits)

lemma executeQuery_loop_cases:
  obtains (exit) "\<not> r \<le> m" "executeQuery_loop env t m d q r w = (Inr JUndefined, w, [])"
  | (ok) result w1 where "r \<le> m" "cm_executeQuery env (q_query q) t w = (Inr result, w1)"
      "executeQuery_loop env t m d q r w = (Inr result, w1, [Call (q_query q) t None])"
  | (last) e w1 where "r \<le> m" "m < r + 1" "cm_executeQuery env (q_query q) t w = (Inl e, w1)"
      "executeQuery_loop env t m d q r w = (Inl e, w1, [Call (q_query q) t (Some e)])"
  | (retry) e w1 res w2 evs where "r + 1 \<le> m" "cm_executeQuery env (q_query q) t w = (Inl e, w1)"
      "executeQuery_loop env t m d q (r + 1) (if d > 0 then setTimeout env d w1 else w1) = (res, w2, evs)"
      "executeQuery_loop env t m d q r w =
         (res, w2, Call (q_query q) t (Some e) # (if d > 0 then [Sleep d] else []) @ evs)"
proof (cases "r \<le> m")
  case False
  then show ?thesis by (intro exit loop_exit)
next
  case le: True
  obtain x w1 where cm: "cm_executeQuery env (q_query q) t w = (x, w1)"
    by (cases "cm_executeQuery env (q_query q) t w")
  show ?thesis
  proof (cases x)
    case (Inr result)
    with le cm show ?thesis by (intro ok [of result w1] loop_ok) simp_all
  next
    case (Inl e)
    show ?thesis
    proof (cases "m < r + 1")
      case True
      with le cm Inl show ?thesis by (intro last [of e w1] loop_last) simp_all
    next
      case False
      then have r1: "r + 1 \<le> m" by simp
      obtain res w2 evs where
        rec: "executeQuery_loop env t m d q (r + 1) (if d > 0 then setTimeout env d w1 else w1) = (res, w2, evs)"
        using prod_cases3 by blast
      have "executeQuery_loop env t m d q r w =
         (res, w2, Call (q_query q) t (Some e) # (if d > 0 then [Sleep d] else []) @ evs)"
        using loop_retry [OF le _ r1, of env q t w e w1 d] cm Inl rec by simp
      with r1 cm Inl rec show ?thesis by (intro retry [of e w1 res w2 evs]) simp_all
    qed
  qed
qed

lemma executeQuery_loop_calls:
  "length (filter is_Call (snd (snd (executeQuery_loop env t m d q r w)))) \<le> nat (m + 1 - r)"
proof (induction env t m d q r w rule: executeQuery_loop.induct)
  case (1 env t m d q r w)
  show ?case
  proof (cases rule: executeQuery_loop_cases [of r m env t d q w])
    case exit then show ?thesis by simp
  next
    case (ok result w1) then show ?thesis by simp
  next
    case (last e w1) then show ?thesis by simp
  next
    case (retry e w1 res w2 evs)
    have "length (filter is_Call evs) \<le> nat (m + 1 - (r + 1))"
    proof (cases "0 < d")
      case True
      with "1.IH"(1) [of "Inl e" w1 e] retry show ?thesis by simp
    next
      case False
      with "1.IH"(2) [of "Inl e" w1 e] retry show ?thesis by simp
    qed
    with retry show ?thesis by simp
  qed
qed

lemma executeQuery_loop_no_progress:
  "filter is_Progress (snd (snd (executeQuery_loop env t m d q r w))) = []"
proof (induction env t m d q r w rule: executeQuery_loop.induct)
  case (1 env t m d q r w)
  show ?case
  proof (cases rule: executeQuery_loop_cases [of r m env t d q w])
    case exit then show ?thesis by simp
  next
    case (ok result w1) then show ?thesis by simp
  next
    case (last e w1) then show ?thesis by simp
  next
    case (retry e w1 res w2 evs)
    have "filter is_Progress evs = []"
    proof (cases "0 < d")
      case True
      with "1.IH"(1) [of "Inl e" w1 e] retry show ?thesis by simp
    next
      case False
      with "1.IH"(2) [of "Inl e" w1 e] retry show ?thesis by simp
    qed
    with retry show ?thesis by simp
  qed
qed

lemma executeQuery_no_progress:
  "filter is_Progress (snd (snd (executeQuery env cfg q w))) = []"
  by (simp add: executeQuery_def executeQuery_loop_no_progress)

lemma executeQuery_calls:
  "length (filter is_Call (snd (snd (executeQuery env cfg q w))))
     \<le> nat (or_default (maxRetries cfg) 3 + 1)"
  using executeQuery_loop_calls [of env _ "or_default (maxRetries cfg) 3" _ q 0 w]
  by (simp add: executeQuery_def)

lemma executeQuery_calls_configured:
  assumes "maxRetries cfg = Some m" and "m \<noteq> 0"
  shows "length (filter is_Call (snd (snd (executeQuery env cfg q w)))) \<le> nat (m + 1)"
  using executeQuery_calls [of env cfg q w] assms by (simp add: or_default_def)

text \<open>One step of the \<open>for\<close> loop, by what the record's \<open>executeQuery\<close> did.\<close>

lemma loop_step_ok:
  assumes "notify cb i n (q_name q) w = (w0, ev0)"
    and "executeQuery env cfg q w0 = (Inr x, w1, evs)"
    and "executeQueries_loop env cfg cb n (i + 1) qs
           (res\<lparr>r_data := r_data res @
               [success_outcome q (date_now env w1 - date_now env w0) x
                  (toISOString env (date_now env w1))],
             r_successful := r_successful res + 1\<rparr>) w1 = (thrown, res2, w2, evs2)"
  shows "executeQueries_loop env cfg cb n i (q # qs) res w = (thrown, res2, w2, ev0 @ evs @ evs2)"
  using assms by (simp add: Let_def)

lemma loop_step_continue:
  assumes "notify cb i n (q_name q) w = (w0, ev0)"
    and "executeQuery env cfg q w0 = (Inl e, w1, evs)"
    and "continueOnError cfg"
    and "executeQueries_loop env cfg cb n (i + 1) qs
           (res\<lparr>r_data := r_data res @ [failure_outcome q e (toISOString env (date_now env w1))],
             r_failed := r_failed res + 1\<rparr>) w1 = (thrown, res2, w2, evs2)"
  shows "executeQueries_loop env cfg cb n i (q # qs) res w = (thrown, res2, w2, ev0 @ evs @ evs2)"
  using assms by (simp add: Let_def)

lemma loop_step_abort:
  assumes "notify cb i n (q_name q) w = (w0, ev0)"
    and "executeQuery env cfg q w0 = (Inl e, w1, evs)"
    and "\<not> continueOnError cfg"
  shows "executeQueries_loop env cfg cb n i (q # qs) res w =
           (Some e, res\<lparr>r_data := r_data res @ [failure_outcome q e (toISOString env (date_now env w1))],
             r_failed := r_failed res + 1\<rparr>, w1, ev0 @ evs)"
  using assms by (simp add: Let_def)

lemma loop_progress:
  "executeQueries_loop env cfg (Some f) n i qs res w = (None, res', w', evs) \<Longrightarrow>
   filter is_Progress evs = map (\<lambda>j. Progress (i + j) n (q_name (qs ! j))) [0..<length qs]"
proof (induction qs arbitrary: i res w res' w' evs)
  case Nil
  then show ?case by simp
next
  case (Cons q qs)
  obtain w0 ev0 where n: "notify (Some f) i n (q_name q) w = (w0, ev0)"
    by (cases "notify (Some f) i n (q_name q) w")
  then have ev0: "ev0 = [Progress i n (q_name q)]" by (auto simp: notify_def)
  obtain r w1 evq where q: "executeQuery env cfg q w0 = (r, w1, evq)"
    using prod_cases3 by blast
  have evq: "filter is_Progress evq = []"
    using executeQuery_no_progress [of env cfg q w0] q by simp
  have "\<exists>res1 evs2. executeQueries_loop env cfg (Some f) n (i + 1) qs res1 w1 = (None, res', w', evs2)
          \<and> evs = ev0 @ evq @ evs2"
    using Cons.prems n q
    by (cases r) (auto simp: Let_def split: prod.splits if_splits)
  then obtain res1 evs2 where
    rest: "executeQueries_loop env cfg (Some f) n (i + 1) qs res1 w1 = (None, res', w', evs2)"
    and evs: "evs = ev0 @ evq @ evs2" by blast
  from Cons.IH [OF rest]
  have "filter is_Progress evs2 = map (\<lambda>j. Progress (i + 1 + j) n (q_name (qs ! j))) [0..<length qs]" .
  with evs ev0 evq show ?case
    by (simp add: map_upt_Suc del: upt_Suc)
qed


lemma loop_Cons_continue:
  assumes n: "notify cb i n (q_name q) w = (w0, ev0)"
    and q: "executeQuery env cfg q w0 = (r, wq, evq)"
    and c: "isl r \<longrightarrow> continueOnError cfg"
  shows "\<exists>resq. length (r_data resq) = length (r_data res) + 1 \<and>
           (\<forall>zs. executeQueries_loop env cfg cb n i (q # zs) res w =
              (case executeQueries_loop env cfg cb n (i + 1) zs resq wq of
                 (thrown, res2, w2, evs3) \<Rightarrow> (thrown, res2, w2, ev0 @ evq @ evs3)))"
proof (cases r)
  case (Inl e)
  let ?resq = "res\<lparr>r_data := r_data res @ [failure_outcome q e (toISOString env (date_now env wq))],
                    r_failed := r_failed res + 1\<rparr>"
  have "\<forall>zs. executeQueries_loop env cfg cb n i (q # zs) res w =
              (case executeQueries_loop env cfg cb n (i + 1) zs ?resq wq of
                 (thrown, res2, w2, evs3) \<Rightarrow> (thrown, res2, w2, ev0 @ evq @ evs3))"
    using n q c Inl by (simp add: Let_def)
  moreover have "length (r_data ?resq) = length (r_data res) + 1" by simp
  ultimately show ?thesis by blast
next
  case (Inr x)
  let ?resq = "res\<lparr>r_data := r_data res @
                      [success_outcome q (date_now env wq - date_now env w0) x
                         (toISOString env (date_now env wq))],
                    r_successful := r_successful res + 1\<rparr>"
  have "\<forall>zs. executeQueries_loop env cfg cb n i (q # zs) res w =
              (case executeQueries_loop env cfg cb n (i + 1) zs ?resq wq of
                 (thrown, res2, w2, evs3) \<Rightarrow> (thrown, res2, w2, ev0 @ evq @ evs3))"
    using n q Inr by (simp add: Let_def)
  moreover have "length (r_data ?resq) = length (r_data res) + 1" by simp
  ultimately show ?thesis by blast
qed

lemma loop_Cons_abort:
  assumes n: "notify cb i n (q_name q) w = (w0, ev0)"
    and q: "executeQuery env cfg q w0 = (r, wq, evq)"
    and c: "\<not> (isl r \<longrightarrow> continueOnError cfg)"
  shows "fst (executeQueries_loop env cfg cb n i (q # zs) res w) \<noteq> None"
  using assms by (cases r) (simp_all add: Let_def)

text \<open>The shape of a \<open>Cons\<close> step whose loop ended without throwing.\<close>

lemma loop_Cons_None:
  assumes "executeQueries_loop env cfg cb n i (q # qs) res w = (None, res', w', evs)"
  obtains w0 ev0 r wq evq resq evs2 where
    "notify cb i n (q_name q) w = (w0, ev0)"
    "executeQuery env cfg q w0 = (r, wq, evq)"
    "length (r_data resq) = length (r_data res) + 1"
    "executeQueries_loop env cfg cb n (i + 1) qs resq wq = (None, res', w', evs2)"
    "evs = ev0 @ evq @ evs2"
    "\<forall>zs. executeQueries_loop env cfg cb n i (q # zs) res w =
              (case executeQueries_loop env cfg cb n (i + 1) zs resq wq of
                 (thrown, res2, w2, evs3) \<Rightarrow> (thrown, res2, w2, ev0 @ evq @ evs3))"
proof -
  obtain w0 ev0 where n: "notify cb i n (q_name q) w = (w0, ev0)"
    by (cases "notify cb i n (q_name q) w")
  obtain r wq evq where q: "executeQuery env cfg q w0 = (r, wq, evq)"
    using prod_cases3 by blast
  have c: "isl r \<longrightarrow> continueOnError cfg"
    using loop_Cons_abort [OF n q, where zs = qs and res = res] assms by auto
  from loop_Cons_continue [OF n q c, where res = res] obtain resq where
    len: "length (r_data resq) = length (r_data res) + 1"
    and step: "\<And>zs. executeQueries_loop env cfg cb n i (q # zs) res w =
              (case executeQueries_loop env cfg cb n (i + 1) zs resq wq of
                 (thrown, res2, w2, evs3) \<Rightarrow> (thrown, res2, w2, ev0 @ evq @ evs3))"
    by blast
  obtain evs2 where "executeQueries_loop env cfg cb n (i + 1) qs resq wq = (None, res', w', evs2)"
    "evs = ev0 @ evq @ evs2"
    using step [of qs] assms by (auto split: prod.splits)
  with n q len step show ?thesis using that [of w0 ev0 r wq evq resq evs2] by blast
qed


lemma loop_append:
  "executeQueries_loop env cfg cb n i xs res w = (None, res1, w1, evs1) \<Longrightarrow>
   executeQueries_loop env cfg cb n i (xs @ ys) res w =
     (case executeQueries_loop env cfg cb n (i + length xs) ys res1 w1 of
        (thrown, res2, w2, evs2) \<Rightarrow> (thrown, res2, w2, evs1 @ evs2))"
proof (induction xs arbitrary: i res w res1 w1 evs1)
  case Nil
  then show ?case by (simp split: prod.splits)
next
  case (Cons q xs)
  from Cons.prems obtain w0 ev0 r wq evq resq evs2 where
    "notify cb i n (q_name q) w = (w0, ev0)"
    "executeQuery env cfg q w0 = (r, wq, evq)"
    "length (r_data resq) = length (r_data res) + 1"
    and rest: "executeQueries_loop env cfg cb n (i + 1) xs resq wq = (None, res1, w1, evs2)"
    and evs1: "evs1 = ev0 @ evq @ evs2"
    and step: "\<forall>zs. executeQueries_loop env cfg cb n i (q # zs) res w =
              (case executeQueries_loop env cfg cb n (i + 1) zs resq wq of
                 (thrown, res2, w2, evs3) \<Rightarrow> (thrown, res2, w2, ev0 @ evq @ evs3))"
    by (rule loop_Cons_None) blast
  show ?case
    using step [rule_format, of "xs @ ys"] Cons.IH [OF rest] evs1
    by (simp split: prod.splits)
qed

lemma loop_data_length:
  "executeQueries_loop env cfg cb n i qs res w = (None, res', w', evs) \<Longrightarrow>
   length (r_data res') = length (r_data res) + length qs"
proof (induction qs arbitrary: i res w res' w' evs)
  case Nil
  then show ?case by simp
next
  case (Cons q qs)
  from Cons.prems obtain resq wq evs2 where
    len: "length (r_data resq) = length (r_data res) + 1"
    and rest: "executeQueries_loop env cfg cb n (i + 1) qs resq wq = (None, res', w', evs2)"
    by (rule loop_Cons_None) blast
  from Cons.IH [OF rest] len show ?case by simp
qed

lemma loop_no_callback:
  "executeQueries_loop env cfg None n i qs res w = (None, res', w', evs) \<Longrightarrow>
   filter is_Progress evs = []"
proof (induction qs arbitrary: i res w res' w' evs)
  case Nil
  then show ?case by simp
next
  case (Cons q qs)
  from Cons.prems obtain w0 ev0 r wq evq resq evs2 where
    n: "notify None i n (q_name q) w = (w0, ev0)"
    and q: "executeQuery env cfg q w0 = (r, wq, evq)"
    and rest: "executeQueries_loop env cfg None n (i + 1) qs resq wq = (None, res', w', evs2)"
    and evs: "evs = ev0 @ evq @ evs2"
    by (rule loop_Cons_None) blast
  have "filter is_Progress evq = []"
    using executeQuery_no_progress [of env cfg q w0] q by simp
  moreover from n have "ev0 = []" by (simp add: notify_def)
  ultimately show ?case using Cons.IH [OF rest] evs by simp
qed



text \<open>
  Claim C1. The executor is to be invoked at most \<open>maxRetries + 1\<close> times for a record,
  and with \<open>maxRetries = 0\<close> exactly once, the first failure being terminal with no
  retry sleep. In \<open>executeQuery\<close> the setting is read as \<open>this.config.maxRetries || 3\<close>,
  so a configured \<open>0\<close> is replaced by \<open>3\<close>: with \<open>maxRetries = 0\<close> a record whose
  executor call always fails is attempted four times, with three sleeps in between. (For
  every other setting \<open>executeQuery_calls_configured\<close> gives the bound.)
\<close>

theorem zero_maxRetries_still_retries:
  "executeQuery test_env (test_config 0 True) (test_query ''Wait Statistics'' ''SELECT 1/0'') 0 =
     (Inl (Error ''Divide by zero error encountered.''), 4,
      [Call ''SELECT 1/0'' 5000 (Some (Error ''Divide by zero error encountered.'')), Sleep 100,
       Call ''SELECT 1/0'' 5000 (Some (Error ''Divide by zero error encountered.'')), Sleep 100,
       Call ''SELECT 1/0'' 5000 (Some (Error ''Divide by zero error encountered.'')), Sleep 100,
       Call ''SELECT 1/0'' 5000 (Some (Error ''Divide by zero error encountered.''))])"
  by (simp add: executeQuery_def test_env_def test_config_def test_query_def or_default_def
      executeQuery_loop.simps)



lemmas test_defs = test_env_def test_config_def test_query_def test_batch_def test_observer_def




lemma executeQuery_first_try:
  assumes "cm_executeQuery env (q_query q) (or_default (timeout cfg) 30000) w = (Inr x, w1)"
    and "0 \<le> or_default (maxRetries cfg) 3"
  shows "executeQuery env cfg q w =
           (Inr x, w1, [Call (q_query q) (or_default (timeout cfg) 30000) None])"
  using assms by (simp add: executeQuery_def loop_ok)

lemma executeQuery_fails_twice:
  assumes mr: "or_default (maxRetries cfg) 3 = 1"
    and c1: "cm_executeQuery env (q_query q) (or_default (timeout cfg) 30000) w = (Inl e1, wa)"
    and c2: "cm_executeQuery env (q_query q) (or_default (timeout cfg) 30000)
               (if or_default (retryDelay cfg) 1000 > 0
                then setTimeout env (or_default (retryDelay cfg) 1000) wa else wa) = (Inl e2, wb)"
  shows "executeQuery env cfg q w =
           (Inl e2, wb,
            Call (q_query q) (or_default (timeout cfg) 30000) (Some e1) #
            (if or_default (retryDelay cfg) 1000 > 0
             then [Sleep (or_default (retryDelay cfg) 1000)] else []) @
            [Call (q_query q) (or_default (timeout cfg) 30000) (Some e2)])"
proof -
  let ?t = "or_default (timeout cfg) 30000" and ?d = "or_default (retryDelay cfg) 1000"
  have second: "executeQuery_loop env ?t 1 ?d q (0 + 1)
                  (if ?d > 0 then setTimeout env ?d wa else wa) =
                (Inl e2, wb, [Call (q_query q) ?t (Some e2)])"
    using c2 by (intro loop_last) simp_all
  have "executeQuery_loop env ?t 1 ?d q 0 w =
          (Inl e2, wb, Call (q_query q) ?t (Some e1) # (if ?d > 0 then [Sleep ?d] else []) @
             [Call (q_query q) ?t (Some e2)])"
    using loop_retry [of 0 1 env q ?t w e1 wa ?d] c1 second by simp
  then show ?thesis by (simp add: executeQuery_def mr)
qed

lemma executeQueries_done:
  assumes "executeQueries_loop env cfg cb (length qs) 0 qs results0 w = (None, res, w1, evs)"
    and "notify cb (length qs) (length qs) ''Complete'' w1 = (w2, ev)"
  shows "executeQueries env cfg qs cb w =
           (Inr (res\<lparr>r_executionTime := date_now env w2 - date_now env w\<rparr>), w2, evs @ ev)"
  using assms by (simp add: executeQueries_def Let_def)

lemma executeQueries_thrown:
  assumes "executeQueries_loop env cfg cb (length qs) 0 qs results0 w = (Some e, res, w1, evs)"
  shows "executeQueries env cfg qs cb w = (Inl e, w1, evs)"
  using assms by (simp add: executeQueries_def Let_def)

text \<open>
  Claim C2. A batch of three records with \<open>maxRetries = 1\<close> and \<open>continueOnError\<close>,
  where the executor raises (an error with a non-empty message) on every call for the second
  record and returns on every call for the first and the third: the run returns a result
  with \<open>successful = 2\<close>, \<open>failed = 1\<close> and three outcomes in input order; the second
  outcome has \<open>success = false\<close>, \<open>rowCount = 0\<close>, \<open>executionTime = 0\<close> and, as its
  error, the non-empty message of the error raised by the last attempt; the executor is
  called once for the first record, twice for the second and once for the third.
\<close>

theorem continue_on_error_scenario:
  assumes mr: "maxRetries cfg = Some 1"
    and coe: "continueOnError cfg"
    and ok1: "\<forall>t w. \<not> isl (fst (cm_executeQuery env (q_query r1) t w))"
    and bad: "\<forall>t w. case fst (cm_executeQuery env (q_query r2) t w) of
                       Inl e \<Rightarrow> message e \<noteq> [] | Inr x \<Rightarrow> False"
    and ok3: "\<forall>t w. \<not> isl (fst (cm_executeQuery env (q_query r3) t w))"
  shows "\<exists>res w' evs tmo e1 e2.
           executeQueries env cfg [r1, r2, r3] cb w = (Inr res, w', evs)
         \<and> r_successful res = 2 \<and> r_failed res = 1
         \<and> length (r_data res) = 3
         \<and> map o_id (r_data res) = [q_id r1, q_id r2, q_id r3]
         \<and> map o_name (r_data res) = [q_name r1, q_name r2, q_name r3]
         \<and> map o_success (r_data res) = [True, False, True]
         \<and> o_rowCount (r_data res ! 1) = 0
         \<and> o_executionTime (r_data res ! 1) = 0
         \<and> o_error (r_data res ! 1) = Some (message e2)
         \<and> message e2 \<noteq> []
         \<and> filter is_Call evs =
              [Call (q_query r1) tmo None, Call (q_query r2) tmo (Some e1),
               Call (q_query r2) tmo (Some e2), Call (q_query r3) tmo None]"
proof -
  let ?t = "or_default (timeout cfg) 30000" and ?d = "or_default (retryDelay cfg) 1000"
  have m1: "or_default (maxRetries cfg) 3 = 1" by (simp add: mr or_default_def)
  define n where "n = length [r1, r2, r3]"
  obtain w0 ev0 where n0: "notify cb 0 n (q_name r1) w = (w0, ev0)"
    by (cases "notify cb 0 n (q_name r1) w")
  obtain x1 w1 where c1: "cm_executeQuery env (q_query r1) ?t w0 = (Inr x1, w1)"
    using ok1 [rule_format, of ?t w0]
    by (cases "cm_executeQuery env (q_query r1) ?t w0"; cases "fst (cm_executeQuery env (q_query r1) ?t w0)") auto
  have q1: "executeQuery env cfg r1 w0 = (Inr x1, w1, [Call (q_query r1) ?t None])"
    using executeQuery_first_try [OF c1] m1 by simp
  obtain w1' ev1 where n1: "notify cb (0 + 1) n (q_name r2) w1 = (w1', ev1)"
    by (cases "notify cb (0 + 1) n (q_name r2) w1")
  obtain e1 wa where c2a: "cm_executeQuery env (q_query r2) ?t w1' = (Inl e1, wa)"
    using bad [rule_format, of ?t w1']
    by (cases "cm_executeQuery env (q_query r2) ?t w1'"; cases "fst (cm_executeQuery env (q_query r2) ?t w1')") auto
  let ?wa' = "if ?d > 0 then setTimeout env ?d wa else wa"
  obtain e2 w2 where c2b: "cm_executeQuery env (q_query r2) ?t ?wa' = (Inl e2, w2)"
    and msg: "message e2 \<noteq> []"
    using bad [rule_format, of ?t ?wa']
    by (cases "cm_executeQuery env (q_query r2) ?t ?wa'"; cases "fst (cm_executeQuery env (q_query r2) ?t ?wa')") auto
  have q2: "executeQuery env cfg r2 w1' =
              (Inl e2, w2, Call (q_query r2) ?t (Some e1) # (if ?d > 0 then [Sleep ?d] else []) @
                 [Call (q_query r2) ?t (Some e2)])"
    by (rule executeQuery_fails_twice [OF m1 c2a c2b])
  obtain w2' ev2 where n2: "notify cb (0 + 1 + 1) n (q_name r3) w2 = (w2', ev2)"
    by (cases "notify cb (0 + 1 + 1) n (q_name r3) w2")
  obtain x3 w3 where c3: "cm_executeQuery env (q_query r3) ?t w2' = (Inr x3, w3)"
    using ok3 [rule_format, of ?t w2']
    by (cases "cm_executeQuery env (q_query r3) ?t w2'"; cases "fst (cm_executeQuery env (q_query r3) ?t w2')") auto
  have q3: "executeQuery env cfg r3 w2' = (Inr x3, w3, [Call (q_query r3) ?t None])"
    using executeQuery_first_try [OF c3] m1 by simp
  obtain w4 ev3 where n3: "notify cb n n ''Complete'' w3 = (w4, ev3)"
    by (cases "notify cb n n ''Complete'' w3")
  have p: "filter is_Call ev0 = []" "filter is_Call ev1 = []" "filter is_Call ev2 = []"
    "filter is_Call ev3 = []"
    using n0 n1 n2 n3 by (auto simp: notify_def split: option.splits)
  let ?o1 = "success_outcome r1 (date_now env w1 - date_now env w0) x1 (toISOString env (date_now env w1))"
  let ?o2 = "failure_outcome r2 e2 (toISOString env (date_now env w2))"
  let ?o3 = "success_outcome r3 (date_now env w3 - date_now env w2') x3 (toISOString env (date_now env w3))"
  let ?evs = "ev0 @ [Call (q_query r1) ?t None] @ ev1 @
              (Call (q_query r2) ?t (Some e1) # (if ?d > 0 then [Sleep ?d] else []) @
                 [Call (q_query r2) ?t (Some e2)]) @ ev2 @ [Call (q_query r3) ?t None] @ ev3"
  let ?res = "\<lparr>r_data = [?o1, ?o2, ?o3], r_successful = 2, r_failed = 1,
               r_executionTime = date_now env w4 - date_now env w\<rparr>"
  let ?R1 = "results0\<lparr>r_data := r_data results0 @ [?o1],
                 r_successful := r_successful results0 + 1\<rparr>"
  let ?R2 = "?R1\<lparr>r_data := r_data ?R1 @ [?o2], r_failed := r_failed ?R1 + 1\<rparr>"
  let ?R3 = "?R2\<lparr>r_data := r_data ?R2 @ [?o3], r_successful := r_successful ?R2 + 1\<rparr>"
  have l3: "executeQueries_loop env cfg cb n (0 + 1 + 1 + 1) [] ?R3 w3 = (None, ?R3, w3, [])"
    by simp
  have l2: "executeQueries_loop env cfg cb n (0 + 1 + 1) [r3] ?R2 w2 =
              (None, ?R3, w3, ev2 @ [Call (q_query r3) ?t None] @ [])"
    by (rule loop_step_ok [OF n2 q3 l3])
  have l1: "executeQueries_loop env cfg cb n (0 + 1) [r2, r3] ?R1 w1 =
              (None, ?R3, w3, ev1 @
                 (Call (q_query r2) ?t (Some e1) # (if ?d > 0 then [Sleep ?d] else []) @
                   [Call (q_query r2) ?t (Some e2)]) @ ev2 @ [Call (q_query r3) ?t None] @ [])"
    by (rule loop_step_continue [OF n1 q2 coe l2])
  have l0: "executeQueries_loop env cfg cb n 0 [r1, r2, r3] results0 w =
              (None, ?R3, w3, ev0 @ [Call (q_query r1) ?t None] @ ev1 @
                 (Call (q_query r2) ?t (Some e1) # (if ?d > 0 then [Sleep ?d] else []) @
                   [Call (q_query r2) ?t (Some e2)]) @ ev2 @ [Call (q_query r3) ?t None] @ [])"
    by (rule loop_step_ok [OF n0 q1 l1])
  have "executeQueries env cfg [r1, r2, r3] cb w =
          (Inr (?R3\<lparr>r_executionTime := date_now env w4 - date_now env w\<rparr>), w4,
           (ev0 @ [Call (q_query r1) ?t None] @ ev1 @
                 (Call (q_query r2) ?t (Some e1) # (if ?d > 0 then [Sleep ?d] else []) @
                   [Call (q_query r2) ?t (Some e2)]) @ ev2 @ [Call (q_query r3) ?t None] @ []) @ ev3)"
    by (rule executeQueries_done [OF l0 [unfolded n_def] n3 [unfolded n_def]])
  then have run: "executeQueries env cfg [r1, r2, r3] cb w = (Inr ?res, w4, ?evs)"
    by (simp add: results0_def)
  have calls: "filter is_Call ?evs =
              [Call (q_query r1) ?t None, Call (q_query r2) ?t (Some e1),
               Call (q_query r2) ?t (Some e2), Call (q_query r3) ?t None]"
    using p by simp
  show ?thesis
    by (rule exI [of _ ?res], rule exI [of _ w4], rule exI [of _ ?evs], rule exI [of _ ?t],
        rule exI [of _ e1], rule exI [of _ e2])
      (simp add: run p msg success_outcome_def failure_outcome_def)
qed


text \<open>The scenario of C2 on the concrete executor.\<close>

theorem continue_on_error_scenario_witness:
  "maxRetries (test_config 1 True) = Some 1
   \<and> continueOnError (test_config 1 True)
   \<and> (\<forall>t w. \<not> isl (fst (cm_executeQuery test_env (q_query (test_batch ! 0)) t w)))
   \<and> (\<forall>t w. case fst (cm_executeQuery test_env (q_query (test_batch ! 1)) t w) of
                Inl e \<Rightarrow> message e \<noteq> [] | Inr x \<Rightarrow> False)
   \<and> (\<forall>t w. \<not> isl (fst (cm_executeQuery test_env (q_query (test_batch ! 2)) t w)))
   \<and> (\<exists>res w' evs tmo e1 e2.
           executeQueries test_env (test_config 1 True)
             [test_batch ! 0, test_batch ! 1, test_batch ! 2] test_observer 0 = (Inr res, w', evs)
         \<and> r_successful res = 2 \<and> r_failed res = 1
         \<and> length (r_data res) = 3
         \<and> map o_id (r_data res) = [q_id (test_batch ! 0), q_id (test_batch ! 1), q_id (test_batch ! 2)]
         \<and> map o_name (r_data res) = [q_name (test_batch ! 0), q_name (test_batch ! 1), q_name (test_batch ! 2)]
         \<and> map o_success (r_data res) = [True, False, True]
         \<and> o_rowCount (r_data res ! 1) = 0
         \<and> o_executionTime (r_data res ! 1) = 0
         \<and> o_error (r_data res ! 1) = Some (message e2)
         \<and> message e2 \<noteq> []
         \<and> filter is_Call evs =
              [Call (q_query (test_batch ! 0)) tmo None, Call (q_query (test_batch ! 1)) tmo (Some e1),
               Call (q_query (test_batch ! 1)) tmo (Some e2), Call (q_query (test_batch ! 2)) tmo None])"
proof -
  have h1: "maxRetries (test_config 1 True) = Some 1"
    and h2: "continueOnError (test_config 1 True)"
    by (simp_all add: test_config_def)
  have h3: "\<forall>t w. \<not> isl (fst (cm_executeQuery test_env (q_query (test_batch ! 0)) t w))"
    by (simp add: test_defs)
  have h4: "\<forall>t w. case fst (cm_executeQuery test_env (q_query (test_batch ! 1)) t w) of
                Inl e \<Rightarrow> message e \<noteq> [] | Inr x \<Rightarrow> False"
    by (simp add: test_defs)
  have h5: "\<forall>t w. \<not> isl (fst (cm_executeQuery test_env (q_query (test_batch ! 2)) t w))"
    by (simp add: test_defs)
  note c = continue_on_error_scenario [OF h1 h2 h3 h4 h5, of test_observer 0]
  show ?thesis by (intro conjI h1 h2 h3 h4 h5 c)
qed

lemma executeQuery_loop_error_last:
  "executeQuery_loop env t m d q r w = (Inl e, w', evs) \<Longrightarrow>
   evs \<noteq> [] \<and> last evs = Call (q_query q) t (Some e)"
proof (induction env t m d q r w arbitrary: evs rule: executeQuery_loop.induct)
  case (1 env t m d q r w)
  show ?case
  proof (cases rule: executeQuery_loop_cases [of r m env t d q w])
    case exit with "1.prems" show ?thesis by simp
  next
    case (ok result w1) with "1.prems" show ?thesis by simp
  next
    case (last e' w1) with "1.prems" show ?thesis by auto
  next
    case (retry e' w1 res w2 evs')
    with "1.prems" have res: "res = Inl e" "w2 = w'"
      and evs: "evs = Call (q_query q) t (Some e') # (if d > 0 then [Sleep d] else []) @ evs'"
      by simp_all
    have "evs' \<noteq> [] \<and> last evs' = Call (q_query q) t (Some e)"
    proof (cases "0 < d")
      case True
      with "1.IH"(1) [of "Inl e'" w1 e' evs'] retry res show ?thesis by simp
    next
      case False
      with "1.IH"(2) [of "Inl e'" w1 e' evs'] retry res show ?thesis by simp
    qed
    with evs show ?thesis by simp
  qed
qed

lemma executeQuery_error_last:
  "executeQuery env cfg q w = (Inl e, w', evs) \<Longrightarrow>
   evs \<noteq> [] \<and> last evs = Call (q_query q) (or_default (timeout cfg) 30000) (Some e)"
  by (simp add: executeQuery_def executeQuery_loop_error_last)

text \<open>
  Claim C3, as the code has it. With \<open>continueOnError\<close> false, let the records \<open>pre\<close>
  complete and let the next record \<open>r\<close> fail terminally with the error \<open>e\<close>. Then the run
  raises instead of returning a result; the \<open>results\<close> object holds outcomes for \<open>pre\<close> and
  \<open>r\<close> only, the last being the failure outcome of \<open>r\<close>; the events of the run end with the
  executor call of \<open>r\<close> that raised \<open>e\<close>, so that nothing is executed or reported for the
  records \<open>post\<close>, and the progress events are those of \<open>pre\<close> and \<open>r\<close>; and the error
  raised is \<open>e\<close> itself, the executor's error, unchanged.
\<close>

theorem abort_on_terminal_failure:
  assumes coe: "\<not> continueOnError cfg"
    and pre: "executeQueries_loop env cfg cb (length (pre @ r # post)) 0 pre results0 w =
                (None, res1, w1, evs1)"
    and n: "notify cb (length pre) (length (pre @ r # post)) (q_name r) w1 = (w2, evp)"
    and fail: "executeQuery env cfg r w2 = (Inl e, w3, evq)"
  shows "executeQueries env cfg (pre @ r # post) cb w = (Inl e, w3, evs1 @ evp @ evq)
       \<and> (\<exists>res. executeQueries_loop env cfg cb (length (pre @ r # post)) 0 (pre @ r # post)
                   results0 w = (Some e, res, w3, evs1 @ evp @ evq)
                 \<and> length (r_data res) = length pre + 1
                 \<and> last (r_data res) = failure_outcome r e (toISOString env (date_now env w3)))
       \<and> filter is_Progress (evs1 @ evp @ evq) =
           (case cb of None \<Rightarrow> []
            | Some f \<Rightarrow> map (\<lambda>j. Progress j (length (pre @ r # post)) (q_name ((pre @ [r]) ! j)))
                          [0..<length pre + 1])
       \<and> last (evs1 @ evp @ evq) = Call (q_query r) (or_default (timeout cfg) 30000) (Some e)"
proof -
  let ?n = "length (pre @ r # post)"
  let ?res = "res1\<lparr>r_data := r_data res1 @ [failure_outcome r e (toISOString env (date_now env w3))],
                   r_failed := r_failed res1 + 1\<rparr>"
  have n': "notify cb (0 + length pre) ?n (q_name r) w1 = (w2, evp)" using n by simp
  have step: "executeQueries_loop env cfg cb ?n (0 + length pre) (r # post) res1 w1 =
                (Some e, ?res, w3, evp @ evq)"
    by (rule loop_step_abort [OF n' fail coe])
  have loop: "executeQueries_loop env cfg cb ?n 0 (pre @ r # post) results0 w =
                (Some e, ?res, w3, evs1 @ evp @ evq)"
    using loop_append [OF pre, of "r # post"] step by simp
  have run: "executeQueries env cfg (pre @ r # post) cb w = (Inl e, w3, evs1 @ evp @ evq)"
    by (rule executeQueries_thrown [OF loop])
  have len: "length (r_data ?res) = length pre + 1"
    using loop_data_length [OF pre] by (simp add: results0_def)
  have lst: "last (r_data ?res) = failure_outcome r e (toISOString env (date_now env w3))"
    by simp
  have evq: "filter is_Progress evq = []"
    using executeQuery_no_progress [of env cfg r w2] fail by simp
  have prog: "filter is_Progress (evs1 @ evp @ evq) =
           (case cb of None \<Rightarrow> []
            | Some f \<Rightarrow> map (\<lambda>j. Progress j ?n (q_name ((pre @ [r]) ! j))) [0..<length pre + 1])"
  proof (cases cb)
    case None
    with loop_no_callback [of env cfg ?n 0 pre results0 w res1 w1 evs1] pre n evq
    show ?thesis by (simp add: notify_def)
  next
    case (Some f)
    have "filter is_Progress evs1 = map (\<lambda>j. Progress (0 + j) ?n (q_name (pre ! j))) [0..<length pre]"
      using loop_progress [of env cfg f ?n 0 pre results0 w res1 w1 evs1] pre Some by simp
    also have "\<dots> = map (\<lambda>j. Progress j ?n (q_name ((pre @ [r]) ! j))) [0..<length pre]"
      by (simp add: nth_append)
    finally have "filter is_Progress evs1 =
        map (\<lambda>j. Progress j ?n (q_name ((pre @ [r]) ! j))) [0..<length pre]" .
    moreover have "evp = [Progress (length pre) ?n (q_name r)]"
      using n Some by (auto simp: notify_def)
    ultimately show ?thesis using Some evq by simp
  qed
  have "last (evs1 @ evp @ evq) = Call (q_query r) (or_default (timeout cfg) 30000) (Some e)"
    using executeQuery_error_last [OF fail] by simp
  with run loop len lst prog show ?thesis by blast
qed


text \<open>The abort on the concrete batch, whose second record fails.\<close>

theorem abort_on_terminal_failure_witness:
  "\<not> continueOnError (test_config 1 False)
   \<and> executeQueries test_env (test_config 1 False)
        ([test_batch ! 0] @ test_batch ! 1 # [test_batch ! 2]) test_observer 0 =
       (Inl (Error ''Divide by zero error encountered.''), 3,
        [Progress 0 3 ''Version Info'', Call ''SELECT @@VERSION'' 5000 None] @
        [Progress 1 3 ''Wait Statistics''] @
        [Call ''SELECT 1/0'' 5000 (Some (Error ''Divide by zero error encountered.'')), Sleep 100,
         Call ''SELECT 1/0'' 5000 (Some (Error ''Divide by zero error encountered.''))])"
proof -
  let ?cfg = "test_config 1 False"
  let ?e = "Error ''Divide by zero error encountered.''"
  have h1: "\<not> continueOnError ?cfg" by (simp add: test_config_def)
  have h2: "executeQueries_loop test_env ?cfg test_observer
              (length ([test_batch ! 0] @ test_batch ! 1 # [test_batch ! 2])) 0 [test_batch ! 0]
              results0 0 =
            (None,
             results0\<lparr>r_data := r_data results0 @
                 [success_outcome (test_batch ! 0) 1 (JArray [[(''n'', ''1'')]])
                    ''1970-01-01T00:00:00.000Z''],
               r_successful := r_successful results0 + 1\<rparr>, 1,
             [Progress 0 3 ''Version Info'', Call ''SELECT @@VERSION'' 5000 None])"
    by (simp add: executeQuery_def test_defs or_default_def executeQuery_loop.simps notify_def
        Let_def)
  have h3: "notify test_observer (length [test_batch ! 0])
              (length ([test_batch ! 0] @ test_batch ! 1 # [test_batch ! 2]))
              (q_name (test_batch ! 1)) 1 = (1, [Progress 1 3 ''Wait Statistics''])"
    by (simp add: test_defs notify_def)
  have h4: "executeQuery test_env ?cfg (test_batch ! 1) 1 =
              (Inl ?e, 3, [Call ''SELECT 1/0'' 5000 (Some ?e), Sleep 100,
                           Call ''SELECT 1/0'' 5000 (Some ?e)])"
    by (simp add: executeQuery_def test_defs or_default_def executeQuery_loop.simps)
  from abort_on_terminal_failure [OF h1 h2 h3 h4] h1 show ?thesis by blast
qed

text \<open>
  Claim C3 as stated asks for the failing record's name in the propagated error. The loop
  rethrows the executor's error as it is (\<open>throw error\<close>): the record \<open>Wait Statistics\<close>
  fails and the error that reaches the caller reads \<open>Divide by zero error encountered.\<close>,
  which does not contain the name.
\<close>

theorem propagated_error_omits_record_name:
  "executeQueries test_env (test_config 1 False) test_batch test_observer 0 =
     (Inl (Error ''Divide by zero error encountered.''), 3,
      [Progress 0 3 ''Version Info'', Call ''SELECT @@VERSION'' 5000 None,
       Progress 1 3 ''Wait Statistics'',
       Call ''SELECT 1/0'' 5000 (Some (Error ''Divide by zero error encountered.'')), Sleep 100,
       Call ''SELECT 1/0'' 5000 (Some (Error ''Divide by zero error encountered.''))])
   \<and> q_name (test_batch ! 1) = ''Wait Statistics''
   \<and> \<not> str_includes (message (Error ''Divide by zero error encountered.''))
          (q_name (test_batch ! 1))"
  by (simp add: executeQueries_def executeQuery_def test_defs or_default_def
      executeQuery_loop.simps notify_def results0_def Let_def)


section \<open>Query parser: properties\<close>

declare show_nat.simps [simp del]

lemma extractQueryInfo_None_iff:
  "extractQueryInfo block n = None \<longleftrightarrow> extractQueryInfo block m = None"
  by (simp add: extractQueryInfo_def Let_def split: option.splits prod.splits)

lemma extractQueryInfo_query:
  "extractQueryInfo block n = Some info \<Longrightarrow> qi_query info \<noteq> []"
  by (auto simp: extractQueryInfo_def Let_def split: option.splits prod.splits if_splits)

text \<open>One step of the block loop: a block is skipped or yields the record with the counter.\<close>

lemma parse_blocks_skip:
  "\<not> accepted b \<Longrightarrow> parse_blocks n (b # bs) = parse_blocks n bs"
  using extractQueryInfo_None_iff [of "trim b" n 0]
  by (auto simp: accepted_def Let_def split: option.splits)

lemma parse_blocks_accept:
  assumes "accepted b"
  shows "\<exists>r. q_queryNumber r = Some n \<and> q_id r = ''glen-berry-'' @ show_nat n
             \<and> (\<forall>bs. parse_blocks n (b # bs) = r # parse_blocks (n + 1) bs)"
proof -
  from assms have long: "50 \<le> length (trim b)" and "extractQueryInfo (trim b) 0 \<noteq> None"
    by (simp_all add: accepted_def)
  then obtain info where info: "extractQueryInfo (trim b) n = Some info"
    using extractQueryInfo_None_iff [of "trim b" n 0] by auto
  then have q: "qi_query info \<noteq> []" by (rule extractQueryInfo_query)
  let ?r = "\<lparr>q_id = ''glen-berry-'' @ show_nat n, q_name = qi_name info,
             q_section = qi_section info, q_description = qi_description info,
             q_query = qi_query info,
             q_estimatedDuration = estimateQueryDuration (qi_query info),
             q_queryNumber = Some n\<rparr>"
  have "\<forall>bs. parse_blocks n (b # bs) = ?r # parse_blocks (n + 1) bs"
    using long info q by (auto simp: Let_def)
  then show ?thesis by (intro exI [of _ ?r]) simp
qed

lemma parse_blocks_length: "length (parse_blocks n bs) = length (filter accepted bs)"
proof (induction bs arbitrary: n)
  case Nil
  then show ?case by simp
next
  case (Cons b bs)
  show ?case
  proof (cases "accepted b")
    case True
    from parse_blocks_accept [OF True, of n] Cons.IH [of "n + 1"] True show ?thesis by auto
  next
    case False
    with parse_blocks_skip [OF False, of n bs] Cons.IH [of n] show ?thesis by simp
  qed
qed

lemma parse_blocks_numbers:
  "map q_queryNumber (parse_blocks n bs) = map Some [n..<n + length (parse_blocks n bs)]
   \<and> map q_id (parse_blocks n bs) =
       map (\<lambda>k. ''glen-berry-'' @ show_nat k) [n..<n + length (parse_blocks n bs)]"
proof (induction bs arbitrary: n)
  case Nil
  then show ?case by simp
next
  case (Cons b bs)
  show ?case
  proof (cases "accepted b")
    case True
    from parse_blocks_accept [OF True, of n] obtain r where
      r: "parse_blocks n (b # bs) = r # parse_blocks (n + 1) bs"
      "q_queryNumber r = Some n" "q_id r = ''glen-berry-'' @ show_nat n" by blast
    have "[n..<n + Suc (length (parse_blocks (n + 1) bs))] =
            n # [n + 1..<n + 1 + length (parse_blocks (n + 1) bs)]"
      by (subst upt_conv_Cons) simp_all
    with r Cons.IH [of "n + 1"] show ?thesis by simp
  next
    case False
    with parse_blocks_skip [OF False, of n bs] Cons.IH [of n] show ?thesis by simp
  qed
qed

lemma parse_blocks_filter:
  "parse_blocks n bs = parse_blocks n (filter (\<lambda>b. 50 \<le> length (trim b)) bs)"
proof (induction bs arbitrary: n)
  case Nil
  then show ?case by simp
next
  case (Cons b bs)
  show ?case
  proof (cases "50 \<le> length (trim b)")
    case False
    then have "\<not> accepted b" by (simp add: accepted_def)
    from parse_blocks_skip [OF this, of n bs] False Cons.IH [of n] show ?thesis by simp
  next
    case long: True
    show ?thesis
    proof (cases "accepted b")
      case True
      from parse_blocks_accept [OF True, of n] obtain r where
        eq: "\<And>xs. parse_blocks n (b # xs) = r # parse_blocks (n + 1) xs" by blast
      from eq [of "filter (\<lambda>b. 50 \<le> length (trim b)) bs"] eq [of bs] Cons.IH [of "n + 1"] long
      show ?thesis by simp
    next
      case False
      from parse_blocks_skip [OF False] Cons.IH [of n] long show ?thesis by simp
    qed
  qed
qed

lemma test_pack_blocks:
  "map accepted (butlast (split_delimiter test_pack)) = [True, False, True, True]"
  by code_simp

lemma test_pack_numbers:
  "map q_queryNumber (parseGlenBerryQueries test_pack 2019) = [Some 1, Some 2, Some 3]"
  by code_simp

lemma test_pack_ids:
  "map q_id (parseGlenBerryQueries test_pack 2019) = [''glen-berry-1'', ''glen-berry-2'', ''glen-berry-3'']"
  by code_simp

text \<open>
  Claim C5. In every parse the records carry the numbers \<open>1, 2, \<dots>\<close> up to the number
  of records, in order, and the id of a record is \<open>glen-berry-\<close> followed by its number;
  there are as many records as accepted blocks among the blocks before the last one, so a
  rejected block uses no number. In the pack \<open>test_pack\<close> the first, third and fourth
  block are accepted and the second is not: the parse has three records, numbered 1, 2, 3.
\<close>

theorem sequence_numbers_contiguous:
  "map q_queryNumber (parseGlenBerryQueries sqlContent version) =
     map Some [1..<1 + length (parseGlenBerryQueries sqlContent version)]
   \<and> map q_id (parseGlenBerryQueries sqlContent version) =
       map (\<lambda>n. ''glen-berry-'' @ show_nat n)
         [1..<1 + length (parseGlenBerryQueries sqlContent version)]
   \<and> length (parseGlenBerryQueries sqlContent version) =
       length (filter accepted (butlast (split_delimiter sqlContent)))
   \<and> map accepted (butlast (split_delimiter test_pack)) = [True, False, True, True]
   \<and> map q_queryNumber (parseGlenBerryQueries test_pack 2019) = [Some 1, Some 2, Some 3]
   \<and> map q_id (parseGlenBerryQueries test_pack 2019) =
       [''glen-berry-1'', ''glen-berry-2'', ''glen-berry-3'']"
  using parse_blocks_numbers [of 1 "butlast (split_delimiter sqlContent)"]
    parse_blocks_length [of 1 "butlast (split_delimiter sqlContent)"]
    test_pack_blocks test_pack_numbers test_pack_ids
  by (simp add: parseGlenBerryQueries_def Let_def)

lemma split_blocks_nonempty: "split_blocks prev s \<noteq> []"
  by (induction prev s rule: split_blocks.induct) (auto split: list.splits elim: cons_first.elims)

lemma cons_first_append: "bs \<noteq> [] \<Longrightarrow> cons_first c (bs @ cs) = cons_first c bs @ cs"
  by (cases bs) simp_all

lemma lineTerminator_not_dash: "isLineTerminator c \<Longrightarrow> c \<noteq> CHR ''-''"
  by (auto simp: isLineTerminator_def)

lemma dashes_set: "xs = ''------'' \<Longrightarrow> c \<in> set xs \<Longrightarrow> c = CHR ''-''"
  by auto

lemma delimiter_at_extend:
  assumes lt: "isLineTerminator (last (c # cs))"
  shows "delimiter_at prev ((c # cs) @ rest) = delimiter_at prev (c # cs)"
proof (cases "7 \<le> length (c # cs)")
  case True
  then have t6: "take 6 ((c # cs) @ rest) = take 6 (c # cs)" by simp
  from True obtain d ds where d: "drop 6 (c # cs) = d # ds"
    by (cases "drop 6 (c # cs)") auto
  then have d6: "drop 6 ((c # cs) @ rest) = d # ds @ rest" using True by simp
  show ?thesis unfolding delimiter_at_def t6 d6 d by simp
next
  case False
  then have short: "length (c # cs) \<le> 6" by simp
  have mem: "last (c # cs) \<in> set (c # cs)" by (rule last_in_set) simp
  have "take 6 (c # cs) \<noteq> ''------''"
  proof
    assume eq: "take 6 (c # cs) = ''------''"
    from short have "take 6 (c # cs) = c # cs" by simp
    with eq mem have "last (c # cs) = CHR ''-''" by (metis dashes_set)
    with lt lineTerminator_not_dash show False by blast
  qed
  moreover have "take 6 ((c # cs) @ rest) \<noteq> ''------''"
  proof
    assume eq: "take 6 ((c # cs) @ rest) = ''------''"
    from short have "take 6 ((c # cs) @ rest) = (c # cs) @ take (6 - length (c # cs)) rest"
      by simp
    with mem have "last (c # cs) \<in> set (take 6 ((c # cs) @ rest))" by simp
    with eq have "last (c # cs) = CHR ''-''" by (metis dashes_set)
    with lt lineTerminator_not_dash show False by blast
  qed
  ultimately show ?thesis unfolding delimiter_at_def by blast
qed

lemma delimiter_at_length: "delimiter_at prev s \<Longrightarrow> 6 \<le> length s"
proof -
  assume "delimiter_at prev s"
  then have "take 6 s = ''------''" by (simp add: delimiter_at_def)
  then have "length (take 6 s) = 6" by simp
  then show ?thesis by simp
qed

lemma split_blocks_delimiter:
  assumes "x = [] \<longrightarrow> (case prev of None \<Rightarrow> True | Some c \<Rightarrow> isLineTerminator c)"
    and "x \<noteq> [] \<longrightarrow> isLineTerminator (last x)"
    and "t = [] \<or> isLineTerminator (hd t)"
  shows "split_blocks prev (x @ ''------'' @ t) =
           split_blocks prev x @ split_blocks (Some CHR ''-'') t"
  using assms
proof (induction prev x rule: split_blocks.induct)
  case (1 prev)
  then have "delimiter_at prev (''------'' @ t)"
    by (cases t) (auto simp: delimiter_at_def)
  then show ?case by simp
next
  case (2 prev c cs)
  from "2.prems" have lt: "isLineTerminator (last (c # cs))" by simp
  have ext: "delimiter_at prev (c # cs @ ''------'' @ t) = delimiter_at prev (c # cs)"
    using delimiter_at_extend [OF lt, of prev "''------'' @ t"] by simp
  show ?case
  proof (cases "delimiter_at prev (c # cs)")
    case True
    from delimiter_at_length [OF True] have len: "5 \<le> length cs" by simp
    have ne: "drop 5 cs \<noteq> []"
    proof
      assume "drop 5 cs = []"
      with len have "length (c # cs) = 6" by simp
      then have "take 6 (c # cs) = c # cs" by simp
      with True have "c # cs = ''------''" by (simp add: delimiter_at_def)
      then have "last (c # cs) = CHR ''-''" by simp
      with lt lineTerminator_not_dash show False by blast
    qed
    then have "5 < length cs" by simp
    then have last: "last (drop 5 cs) = last (c # cs)"
      using last_drop [of 5 cs] by auto
    have "split_blocks (Some CHR ''-'') (drop 5 cs @ ''------'' @ t) =
            split_blocks (Some CHR ''-'') (drop 5 cs) @ split_blocks (Some CHR ''-'') t"
      using "2.IH"(1) [OF True] ne last lt "2.prems"(3) by simp
    moreover have "drop 5 (cs @ ''------'' @ t) = drop 5 cs @ ''------'' @ t"
      using len by simp
    ultimately show ?thesis using True ext by simp
  next
    case False
    have "split_blocks (Some c) (cs @ ''------'' @ t) =
            split_blocks (Some c) cs @ split_blocks (Some CHR ''-'') t"
      using "2.IH"(2) [OF False] lt "2.prems"(3) by (cases cs) simp_all
    then show ?thesis
      using False ext by (simp add: cons_first_append split_blocks_nonempty)
  qed
qed

lemma parse_blocks_short:
  assumes "length (trim b) < 50"
  shows "parse_blocks n (pre @ b # post) = parse_blocks n (pre @ post)"
proof -
  have "filter (\<lambda>b. 50 \<le> length (trim b)) (pre @ b # post) =
          filter (\<lambda>b. 50 \<le> length (trim b)) (pre @ post)"
    using assms by simp
  then show ?thesis
    using parse_blocks_filter [of n "pre @ b # post"] parse_blocks_filter [of n "pre @ post"]
    by simp
qed

lemma parse_after_last_delimiter:
  assumes "x = [] \<or> isLineTerminator (last x)"
    and "t = [] \<or> isLineTerminator (hd t)"
    and "split_blocks (Some CHR ''-'') t = [t]"
  shows "parseGlenBerryQueries (x @ ''------'' @ t) version = parse_blocks 1 (split_delimiter x)"
proof -
  have "split_blocks None (x @ ''------'' @ t) =
          split_blocks None x @ split_blocks (Some CHR ''-'') t"
    using assms(1,2) by (intro split_blocks_delimiter) auto
  then have "butlast (split_delimiter (x @ ''------'' @ t)) = split_delimiter x"
    using assms(3) by (simp add: split_delimiter_def butlast_append)
  then show ?thesis by (simp add: parseGlenBerryQueries_def Let_def)
qed

text \<open>
  Claim C6. The records of a parse are those of the blocks before the last one whose
  trimmed length is at least 50, so there is at most one record per block before the last;
  a block of trimmed length below 50 yields no record and leaves the records of the other
  blocks, their numbers included, as they are; and when the text ends with a delimiter line
  followed by a text \<open>t\<close> with no delimiter line in it, the records are those of the blocks
  of the text before that line: \<open>t\<close> contributes none. The parse is a total function: no
  block makes it fail.
\<close>

theorem remainder_and_short_blocks_skipped:
  "parseGlenBerryQueries sqlContent version =
     parse_blocks 1 (filter (\<lambda>b. 50 \<le> length (trim b)) (butlast (split_delimiter sqlContent)))
   \<and> length (parseGlenBerryQueries sqlContent version) \<le> length (split_delimiter sqlContent) - 1
   \<and> (length (trim b) < 50 \<longrightarrow>
        parse_blocks n (pre @ b # post) = parse_blocks n (pre @ post))
   \<and> ((x = [] \<or> isLineTerminator (last x)) \<and> (t = [] \<or> isLineTerminator (hd t))
        \<and> split_blocks (Some CHR ''-'') t = [t] \<longrightarrow>
        parseGlenBerryQueries (x @ ''------'' @ t) version = parse_blocks 1 (split_delimiter x))"
proof -
  have a: "parseGlenBerryQueries sqlContent version =
     parse_blocks 1 (filter (\<lambda>b. 50 \<le> length (trim b)) (butlast (split_delimiter sqlContent)))"
    using parse_blocks_filter [of 1 "butlast (split_delimiter sqlContent)"]
    by (simp add: parseGlenBerryQueries_def Let_def)
  have "length (parseGlenBerryQueries sqlContent version) \<le>
          length (butlast (split_delimiter sqlContent))"
    using parse_blocks_length [of 1 "butlast (split_delimiter sqlContent)"]
      length_filter_le [of accepted "butlast (split_delimiter sqlContent)"]
    by (simp add: parseGlenBerryQueries_def Let_def del: length_butlast)
  then have b: "length (parseGlenBerryQueries sqlContent version) \<le>
                  length (split_delimiter sqlContent) - 1"
    by simp
  from a b parse_blocks_short [of b n pre post] parse_after_last_delimiter [of x t version]
  show ?thesis by blast
qed

text \<open>A text after the last delimiter line, and a short block between two long ones.\<close>

theorem remainder_and_short_blocks_skipped_witness:
  "(test_head = [] \<or> isLineTerminator (last test_head))
   \<and> (test_tail = [] \<or> isLineTerminator (hd test_tail))
   \<and> split_blocks (Some CHR ''-'') test_tail = [test_tail]
   \<and> parseGlenBerryQueries (test_head @ ''------'' @ test_tail) 2019 =
       parse_blocks 1 (split_delimiter test_head)
   \<and> length (trim ''-- too short'') < 50
   \<and> parse_blocks 1 ([test_head] @ ''-- too short'' # [test_head]) =
       parse_blocks 1 ([test_head] @ [test_head])"
proof -
  have h1: "test_head = [] \<or> isLineTerminator (last test_head)" by code_simp
  have h2: "test_tail = [] \<or> isLineTerminator (hd test_tail)" by code_simp
  have h3: "split_blocks (Some CHR ''-'') test_tail = [test_tail]" by code_simp
  have h4: "length (trim ''-- too short'') < 50" by code_simp
  note t = remainder_and_short_blocks_skipped
    [of _ 2019 "''-- too short''" 1 "[test_head]" "[test_head]" test_head test_tail]
  from t h1 h2 h3 h4 show ?thesis by blast
qed

section \<open>Classification and version resolution: properties\<close>

text \<open>
  Claim C7. \<open>categorizeQuery\<close> is a function of the description and the second text it
  is given, and it computes what the two ordered rule tables compute: the first rule of
  \<open>description_rules\<close> with a keyword in the lower-cased description gives the label;
  when there is none, the first rule of \<open>content_rules\<close> with a signature in the
  lower-cased second text does; when there is none either, the label is \<open>General\<close>.
\<close>

theorem categorizeQuery_refines:
  "categorizeQuery description body = classifySection description body"
  by (simp add: categorizeQuery_def classifySection_def description_rules_def content_rules_def
      Let_def)

lemma mapVersionToKey_range: "2005 \<le> mapVersionToKey version \<and> mapVersionToKey version \<le> 2025"
  by (simp add: mapVersionToKey_def split: option.splits)

lemma packFile_values:
  "packFile 2025 = Some ''sql-server-2025-queries.sql''"
  "packFile 2022 = Some ''sql-server-2022-queries.sql''"
  "packFile 2019 = Some ''sql-server-2019-queries.sql''"
  "packFile 2017 = Some ''sql-server-2017-queries.sql''"
  "packFile 2016 = Some ''sql-server-2016-queries.sql''"
  "packFile 2014 = Some ''sql-server-2014-queries.sql''"
  "packFile 2012 = Some ''sql-server-2012-queries.sql''"
  "packFile 2008 = Some ''sql-server-2008-queries.sql''"
  "packFile 2005 = Some ''sql-server-2005-queries.sql''"
  by code_simp+

lemma digit_char:
  assumes "d < 10"
  shows "isDigit (char_of (48 + d))" "\<not> isWhiteSpace (char_of (48 + d))"
    "digit_val (char_of (48 + d)) = int d" "char_of (48 + d) \<noteq> CHR ''x''"
    "char_of (48 + d) \<noteq> CHR ''X''" "char_of (48 + d) \<noteq> CHR ''-''" "char_of (48 + d) \<noteq> CHR ''+''"
proof -
  have code: "of_char (char_of (48 + d)) = 48 + d"
    using assms by simp
  show "isDigit (char_of (48 + d))"
    using assms by (simp add: isDigit_def Let_def)
  have ne: "\<And>c. of_char c \<noteq> 48 + d \<Longrightarrow> char_of (48 + d) \<noteq> c"
    using code by auto
  show "\<not> isWhiteSpace (char_of (48 + d))"
    unfolding isWhiteSpace_def using ne [of "CHR 0x09"] ne [of "CHR 0x0A"] ne [of "CHR 0x0B"]
      ne [of "CHR 0x0C"] ne [of "CHR 0x0D"] ne [of "CHR 0x20"] ne [of "CHR 0xA0"] assms
    by simp
  have "of_char (char_of (48 + d)) = int (48 + d)"
    using code by (metis of_char_of of_nat_of_char)
  then show "digit_val (char_of (48 + d)) = int d"
    using assms by (simp add: digit_val_def Let_def)
  show "char_of (48 + d) \<noteq> CHR ''x''" "char_of (48 + d) \<noteq> CHR ''X''"
    "char_of (48 + d) \<noteq> CHR ''-''" "char_of (48 + d) \<noteq> CHR ''+''"
    using ne [of "CHR ''x''"] ne [of "CHR ''X''"] ne [of "CHR ''-''"] ne [of "CHR ''+''"] assms
    by simp_all
qed

lemma digits_val_snoc: "digits_val r (ds @ [c]) = digits_val r ds * r + digit_val c"
  by (simp add: digits_val_def)

lemma show_nat_digits:
  "show_nat n \<noteq> [] \<and> list_all isDigit (show_nat n) \<and> digits_val 10 (show_nat n) = int n"
proof (induction n rule: show_nat.induct)
  case (1 n)
  show ?case
  proof (cases "n < 10")
    case True
    then show ?thesis
      by (subst (1 2 3) show_nat.simps) (simp add: digit_char digits_val_def)
  next
    case False
    have m: "n mod 10 < 10" by simp
    from False "1.IH" have ih: "list_all isDigit (show_nat (n div 10))"
      "digits_val 10 (show_nat (n div 10)) = int (n div 10)" by simp_all
    have "int (n div 10) * 10 + int (n mod 10) = int n"
      by (metis mult.commute of_nat_add of_nat_mult of_nat_numeral div_mult_mod_eq mult.commute)
    with False ih m show ?thesis
      by (subst (1 2 3) show_nat.simps) (simp add: digit_char digits_val_snoc)
  qed
qed

lemma takeWhile_all: "list_all P xs \<Longrightarrow> takeWhile P xs = xs"
  by (induction xs) auto

lemma startsWith_subset: "startsWith s p \<Longrightarrow> set p \<subseteq> set s"
  by (induction s p rule: startsWith.induct) auto

lemma isDigit_not:
  "isDigit c \<Longrightarrow> \<not> isWhiteSpace c \<and> c \<noteq> CHR ''x'' \<and> c \<noteq> CHR ''X'' \<and> c \<noteq> CHR ''-'' \<and> c \<noteq> CHR ''+''"
  by (auto simp: isDigit_def isWhiteSpace_def Let_def)

lemma parseInt_digits:
  assumes ne: "s \<noteq> []" and dig: "list_all isDigit s"
  shows "parseInt s = Some (digits_val 10 s)"
    and "parseInt (CHR ''-'' # s) = Some (- digits_val 10 s)"
proof -
  from ne dig have c: "isDigit (hd s)" by (cases s) auto
  have ws: "dropWhile isWhiteSpace s = s"
    using ne c isDigit_not by (cases s) auto
  have sign: "\<not> startsWith s ''-''" "\<not> startsWith s ''+''"
    using ne c isDigit_not by (cases s; auto)+
  have "CHR ''x'' \<notin> set s" "CHR ''X'' \<notin> set s"
    using dig isDigit_not by (auto simp: list_all_iff)
  then have nox: "\<not> startsWith s ''0x''" "\<not> startsWith s ''0X''"
    using startsWith_subset by fastforce+
  show "parseInt s = Some (digits_val 10 s)"
    by (simp add: parseInt_def Let_def ws sign nox takeWhile_all [OF dig] ne)
  have minus: "\<not> isWhiteSpace CHR ''-''" by (simp add: isWhiteSpace_def)
  show "parseInt (CHR ''-'' # s) = Some (- digits_val 10 s)"
    by (simp add: parseInt_def Let_def minus nox takeWhile_all [OF dig] ne)
qed

lemma parseInt_show_int: "parseInt (show_int n) = Some n"
  using parseInt_digits [of "show_nat (nat n)"] parseInt_digits [of "show_nat (nat (- n))"]
    show_nat_digits [of "nat n"] show_nat_digits [of "nat (- n)"]
  by (simp add: show_int_def)

text \<open>
  Claim C9, as the code has it. \<open>mapVersionToKey\<close> returns a key between 2005 and 2025
  for every argument and never raises. An argument that \<open>parseInt\<close> reads as a year in
  that range is returned as it is, whether \<open>queryPackFiles\<close> has that year or not; every
  other argument is mapped to a key of \<open>queryPackFiles\<close>, one to which exactly one pack
  file belongs, and to 2019 when it is not a number or is below 9. For an integer argument
  \<open>n\<close> of magnitude below \<open>10\<^sup>2\<^sup>1\<close>, which is converted to its decimal rendering,
  the result is given by the threshold table; the number \<open>10\<^sup>2\<^sup>1\<close> itself is converted
  to \<open>1e+21\<close>, read as 1, and mapped to 2019.
\<close>

theorem mapVersionToKey_total:
  "2005 \<le> mapVersionToKey version \<and> mapVersionToKey version \<le> 2025
   \<and> (case parseInt version of
         None \<Rightarrow> mapVersionToKey version = 2019
       | Some n \<Rightarrow>
           (if 2005 \<le> n \<and> n \<le> 2025 then mapVersionToKey version = n
            else (\<exists>filename. packFile (mapVersionToKey version) = Some filename)
                 \<and> length (filter (\<lambda>(key, filename). key = show_int (mapVersionToKey version))
                              queryPackFiles) = 1
                 \<and> (if n < 9 then mapVersionToKey version = 2019 else True)))
   \<and> (\<bar>n\<bar> < 10 ^ 21 \<longrightarrow>
        mapVersionToKey (show_int n) =
          (if 2005 \<le> n \<and> n \<le> 2025 then n
           else if 17 \<le> n then 2025 else if 16 \<le> n then 2022 else if 15 \<le> n then 2019
           else if 14 \<le> n then 2017 else if 13 \<le> n then 2016 else if 12 \<le> n then 2014
           else if 11 \<le> n then 2012 else if 10 \<le> n then 2008 else if 9 \<le> n then 2005
           else 2019))
   \<and> parseInt ''1e+21'' = Some 1 \<and> mapVersionToKey ''1e+21'' = 2019"
proof -
  have big: "parseInt ''1e+21'' = Some 1" "mapVersionToKey ''1e+21'' = 2019"
    by code_simp+
  have one: "length (filter (\<lambda>(key, filename). key = show_int k) queryPackFiles) = 1"
    if "k \<in> {2025, 2022, 2019, 2017, 2016, 2014, 2012, 2008, 2005}" for k
    using that by (elim insertE emptyE; hypsubst; code_simp)
  have keys: "mapVersionToKey version \<in> {2025, 2022, 2019, 2017, 2016, 2014, 2012, 2008, 2005}"
    if "parseInt version = Some m" "\<not> (2005 \<le> m \<and> m \<le> 2025)" for m
    using that by (auto simp: mapVersionToKey_def)
  have pf: "\<exists>filename. packFile k = Some filename"
    if "k \<in> {2025, 2022, 2019, 2017, 2016, 2014, 2012, 2008, 2005}" for k
    using that packFile_values by auto
  show ?thesis
    using mapVersionToKey_range [of version] one [OF keys] pf [OF keys] big
    by (auto simp: mapVersionToKey_def parseInt_show_int split: option.splits)
qed

text \<open>
  An internal version number: 16, below the bound, is converted to \<open>16\<close> and mapped to
  2022, which has its pack file.
\<close>

theorem mapVersionToKey_total_witness:
  "parseInt ''16'' = Some 16 \<and> mapVersionToKey ''16'' = 2022
   \<and> (\<exists>filename. packFile (mapVersionToKey ''16'') = Some filename)
   \<and> \<bar>16 :: int\<bar> < 10 ^ 21 \<and> show_int 16 = ''16'' \<and> mapVersionToKey (show_int 16) = 2022"
proof -
  have p: "parseInt ''16'' = Some 16" by code_simp
  have m: "mapVersionToKey ''16'' = 2022" by code_simp
  have s: "show_int 16 = ''16''" by code_simp
  have b: "\<bar>16 :: int\<bar> < 10 ^ 21" by simp
  from mapVersionToKey_total [of "''16''" 16] p m s b show ?thesis by simp
qed

text \<open>
  Claim C9 as stated asks for a key to which exactly one pack file maps, for every integer.
  The year 2006 is returned as it is, and \<open>queryPackFiles\<close> has no entry for it.
\<close>

theorem year_without_pack:
  "mapVersionToKey (show_int 2006) = 2006 \<and> packFile (mapVersionToKey (show_int 2006)) = None"
  by code_simp













section \<open>Section index: properties\<close>

lemma set_first_occurrences: "set (first_occurrences xs) = set xs"
  by (induction xs rule: first_occurrences.induct) auto

lemma distinct_first_occurrences: "distinct (first_occurrences xs)"
  by (induction xs rule: first_occurrences.induct) (auto simp: set_first_occurrences)

lemma first_occurrences_snoc:
  "first_occurrences (xs @ [x]) =
     (if x \<in> set xs then first_occurrences xs else first_occurrences xs @ [x])"
  by (induction xs rule: first_occurrences.induct) auto

lemma map_has_keys: "map_has (map (\<lambda>l. (l, f l)) ls) k \<longleftrightarrow> k \<in> set ls"
  by (induction ls) (auto simp: map_has_def)

lemma map_set_new: "k \<notin> fst ` set m \<Longrightarrow> map_set m k v = m @ [(k, v)]"
  by (induction m) auto

lemma map_push_absent: "k \<notin> set ls \<Longrightarrow> map_push (map (\<lambda>l. (l, f l)) ls) k x = map (\<lambda>l. (l, f l)) ls"
  by (induction ls) auto

lemma map_push_keys:
  "distinct ls \<Longrightarrow>
   map_push (map (\<lambda>l. (l, f l)) ls) k x = map (\<lambda>l. (l, if l = k then f l @ [x] else f l)) ls"
  by (induction ls) (auto simp: map_push_absent)

lemma organize_step_grouped: "organize_step (grouped acc) q = grouped (acc @ [q])"
proof (cases "q_section q \<in> set (map q_section acc)")
  case True
  then have has: "map_has (grouped acc) (q_section q)"
    by (simp add: grouped_def map_has_keys set_first_occurrences)
  have "map_push (grouped acc) (q_section q) q =
          map (\<lambda>l. (l, if l = q_section q then members l acc @ [q] else members l acc))
            (first_occurrences (map q_section acc))"
    unfolding grouped_def by (rule map_push_keys) (rule distinct_first_occurrences)
  also have "\<dots> = grouped (acc @ [q])"
    using True by (auto simp: grouped_def first_occurrences_snoc members_def)
  finally show ?thesis using has by (simp add: organize_step_def)
next
  case False
  then have has: "\<not> map_has (grouped acc) (q_section q)"
    by (simp add: grouped_def map_has_keys set_first_occurrences)
  have new: "q_section q \<notin> fst ` set (grouped acc)"
    using False by (auto simp: grouped_def set_first_occurrences)
  let ?ls = "first_occurrences (map q_section acc) @ [q_section q]"
  have d: "distinct ?ls"
    using False by (simp add: distinct_first_occurrences set_first_occurrences)
  have "\<forall>x \<in> set acc. q_section x \<noteq> q_section q"
    using False by (metis image_eqI set_map)
  then have empty: "members (q_section q) acc = []"
    by (simp add: members_def filter_empty_conv)
  have st: "map_set (grouped acc) (q_section q) [] =
          map (\<lambda>l. (l, members l acc)) ?ls"
    using map_set_new [OF new] empty by (simp add: grouped_def)
  have "map_push (map (\<lambda>l. (l, members l acc)) ?ls) (q_section q) q =
          map (\<lambda>l. (l, if l = q_section q then members l acc @ [q] else members l acc)) ?ls"
    by (rule map_push_keys [OF d])
  then have "map_push (map_set (grouped acc) (q_section q) []) (q_section q) q =
          map (\<lambda>l. (l, if l = q_section q then members l acc @ [q] else members l acc)) ?ls"
    by (simp only: st)
  also have "\<dots> = grouped (acc @ [q])"
    using False by (auto simp: grouped_def first_occurrences_snoc members_def)
  finally show ?thesis using has by (simp add: organize_step_def)
qed

lemma foldl_organize_step:
  "foldl organize_step (grouped acc) qs = grouped (acc @ qs)"
  by (induction qs arbitrary: acc) (simp_all add: organize_step_grouped)

lemma organizeSections_grouped:
  "sections (organizeSections p) = grouped (queries p)" "queries (organizeSections p) = queries p"
  using foldl_organize_step [of "[]" "queries p"]
  by (simp_all add: organizeSections_def grouped_def)

lemma sum_indicator:
  "distinct ls \<Longrightarrow> k \<in> set ls \<Longrightarrow> (\<Sum>l\<leftarrow>ls. if k = l then 1 else 0) = (1::nat)"
  by (induction ls) auto

lemma sum_members_length:
  "distinct ls \<Longrightarrow> q_section ` set qs \<subseteq> set ls \<Longrightarrow>
   (\<Sum>l\<leftarrow>ls. length (members l qs)) = length qs"
proof (induction qs)
  case Nil
  then show ?case by (simp add: members_def)
next
  case (Cons q qs)
  have "(\<Sum>l\<leftarrow>ls. length (members l (q # qs))) =
        (\<Sum>l\<leftarrow>ls. (if q_section q = l then 1 else 0) + length (members l qs))"
    by (rule arg_cong [where f = sum_list]) (simp add: members_def)
  also have "\<dots> = (\<Sum>l\<leftarrow>ls. if q_section q = l then 1 else 0) + (\<Sum>l\<leftarrow>ls. length (members l qs))"
    by (simp add: sum_list_addf)
  also have "\<dots> = 1 + length qs"
    using Cons sum_indicator [of ls "q_section q"] by simp
  finally show ?case by simp
qed

lemma mset_indicator_absent:
  "k \<notin> set ls \<Longrightarrow> (\<Sum>l\<leftarrow>ls. if k = l then {#q#} else {#}) = {#}"
  by (induction ls) auto

lemma mset_indicator:
  "distinct ls \<Longrightarrow> k \<in> set ls \<Longrightarrow> (\<Sum>l\<leftarrow>ls. if k = l then {#q#} else {#}) = {#q#}"
  by (induction ls) (auto simp: mset_indicator_absent)

lemma mset_members:
  "distinct ls \<Longrightarrow> q_section ` set qs \<subseteq> set ls \<Longrightarrow>
   (\<Sum>l\<leftarrow>ls. mset (members l qs)) = mset qs"
proof (induction qs)
  case Nil
  then show ?case by (simp add: members_def)
next
  case (Cons q qs)
  have "(\<Sum>l\<leftarrow>ls. mset (members l (q # qs))) =
        (\<Sum>l\<leftarrow>ls. (if q_section q = l then {#q#} else {#}) + mset (members l qs))"
    by (rule arg_cong [where f = sum_list]) (simp add: members_def)
  also have "\<dots> = (\<Sum>l\<leftarrow>ls. if q_section q = l then {#q#} else {#}) + (\<Sum>l\<leftarrow>ls. mset (members l qs))"
    by (simp add: sum_list_addf)
  also have "\<dots> = {#q#} + mset qs"
    using Cons mset_indicator [of ls "q_section q" q] by simp
  finally show ?case by simp
qed

lemma foldl_duration:
  "foldl (\<lambda>sum q. sum + q_estimatedDuration q) a qs = a + sum_list (map q_estimatedDuration qs)"
  by (induction qs arbitrary: a) simp_all

lemma getSections_rebuilt:
  assumes "sections p = grouped (queries p)"
  shows "sections (snd (getSections loaded p)) = grouped (queries (snd (getSections loaded p)))"
  using assms by (simp add: getSections_def loadQueries_def Let_def organizeSections_grouped)

lemma getSections_summary:
  "fst (getSections loaded p) =
     map (\<lambda>(name, qs). \<lparr>s_name = name, s_queryCount = length qs,
                         s_estimatedDuration = sum_list (map q_estimatedDuration qs)\<rparr>)
       (sections (snd (getSections loaded p)))"
  by (simp add: getSections_def Let_def foldl_duration)

text \<open>
  Claim C10. After \<open>organizeSections\<close> the section index has one entry for each section
  label of the loaded records, in the order of first occurrence, and the entry of a label
  holds exactly the records with that label, in their order among the loaded records; so
  the labels are distinct and the lists together hold every loaded record once. What
  \<open>getSections\<close> then reports (after the load it starts when the index is empty) is, for
  each label, the number of its records and the sum of their \<open>estimatedDuration\<close>
  values; the reported counts add up to the number of loaded records.
\<close>

theorem section_index_partition:
  "sections (organizeSections p) =
     map (\<lambda>label. (label, members label (queries (organizeSections p))))
       (first_occurrences (map q_section (queries (organizeSections p))))
   \<and> queries (organizeSections p) = queries p
   \<and> distinct (map fst (sections (organizeSections p)))
   \<and> mset (concat (map snd (sections (organizeSections p)))) = mset (queries p)
   \<and> map s_name (fst (getSections loaded (organizeSections p))) =
       first_occurrences (map q_section (queries (snd (getSections loaded (organizeSections p)))))
   \<and> map s_queryCount (fst (getSections loaded (organizeSections p))) =
       map (\<lambda>label. length (members label (queries (snd (getSections loaded (organizeSections p))))))
         (map s_name (fst (getSections loaded (organizeSections p))))
   \<and> sum_list (map s_queryCount (fst (getSections loaded (organizeSections p)))) =
       length (queries (snd (getSections loaded (organizeSections p))))
   \<and> map s_estimatedDuration (fst (getSections loaded (organizeSections p))) =
       map (\<lambda>label. sum_list (map q_estimatedDuration
                        (members label (queries (snd (getSections loaded (organizeSections p)))))))
         (map s_name (fst (getSections loaded (organizeSections p))))"
proof -
  let ?p = "organizeSections p"
  let ?p2 = "snd (getSections loaded ?p)"
  let ?ls = "first_occurrences (map q_section (queries p))"
  let ?ls2 = "first_occurrences (map q_section (queries ?p2))"
  have cover: "q_section ` set qs \<subseteq> set (first_occurrences (map q_section qs))" for qs
    by (simp add: set_first_occurrences)
  have a: "sections ?p = map (\<lambda>label. (label, members label (queries ?p)))
                           (first_occurrences (map q_section (queries ?p)))"
    by (simp add: organizeSections_grouped grouped_def)
  have b: "queries ?p = queries p" by (simp add: organizeSections_grouped)
  have c: "distinct (map fst (sections ?p))"
    by (simp add: organizeSections_grouped grouped_def comp_def distinct_first_occurrences)
  have "mset (concat (map snd (sections ?p))) = (\<Sum>l\<leftarrow>?ls. mset (members l (queries p)))"
    by (simp add: organizeSections_grouped grouped_def mset_concat comp_def)
  also have "\<dots> = mset (queries p)"
    by (rule mset_members [OF distinct_first_occurrences cover])
  finally have d: "mset (concat (map snd (sections ?p))) = mset (queries p)" .
  have inv: "sections ?p2 = grouped (queries ?p2)"
    by (rule getSections_rebuilt) (simp add: organizeSections_grouped)
  have summ: "fst (getSections loaded ?p) =
      map (\<lambda>label. \<lparr>s_name = label, s_queryCount = length (members label (queries ?p2)),
                      s_estimatedDuration =
                        sum_list (map q_estimatedDuration (members label (queries ?p2)))\<rparr>) ?ls2"
    by (subst getSections_summary) (simp add: inv grouped_def comp_def)
  have e: "map s_name (fst (getSections loaded ?p)) = ?ls2"
    by (simp add: summ comp_def)
  have f: "map s_queryCount (fst (getSections loaded ?p)) =
       map (\<lambda>label. length (members label (queries ?p2))) (map s_name (fst (getSections loaded ?p)))"
    unfolding e by (simp add: summ comp_def)
  have "sum_list (map s_queryCount (fst (getSections loaded ?p))) =
          (\<Sum>l\<leftarrow>?ls2. length (members l (queries ?p2)))"
    by (simp add: summ comp_def)
  also have "\<dots> = length (queries ?p2)"
    by (rule sum_members_length [OF distinct_first_occurrences cover])
  finally have g: "sum_list (map s_queryCount (fst (getSections loaded ?p))) = length (queries ?p2)" .
  have h: "map s_estimatedDuration (fst (getSections loaded ?p)) =
       map (\<lambda>label. sum_list (map q_estimatedDuration (members label (queries ?p2))))
         (map s_name (fst (getSections loaded ?p)))"
    unfolding e by (simp add: summ comp_def)
  from a b c d e f g h show ?thesis by (intro conjI)
qed


end
